theory Spec2Isabelle
  imports Complex_Main "HOL-Library.Sublist" "HOL-Library.Multiset"
begin

section \<open>Data model (types.ts)\<close>

text \<open>
  A JavaScript \<open>number\<close>: a finite double (a rational), an infinity (\<open>Infinite True\<close> is
  \<open>+Infinity\<close>) or \<open>NaN\<close>. No handler computes with the numeric fields of a visit; they
  are carried around, and the import check looks at their truthiness only.
\<close>

datatype number = Finite rat | Infinite bool | NaN

datatype VisitType = FollowUp | Crawlback | Call

text \<open>
  \<open>interface Visit\<close>. An optional field (\<open>lastModified?: string\<close>) is an \<open>option\<close>:
  \<open>None\<close> stands for a missing key and for the value \<open>undefined\<close>, which no code of
  the application tells apart on a stored record. \<open>number | null\<close> is an \<open>option\<close> too.
  The fields \<open>id\<close> and \<open>notes\<close> are called \<open>visit_id\<close> and \<open>visit_notes\<close> here.
\<close>

record Visit =
  visit_id :: string
  businessName :: string
  timestamp :: string
  lastModified :: "string option"
  contactPerson :: string
  ownerName :: string
  ownerContact :: "string option"
  numberOfPhones :: "number option"
  estimatedMonthlyPayment :: "number option"
  currentProvider :: string
  address :: string
  visit_notes :: string
  visitType :: VisitType
  revisitDate :: "string option"
  isRevisitSuccessful :: "bool option"

text \<open>
  The argument of \<open>handleSaveVisit\<close>:
  \<open>Omit<Visit, 'id' | 'timestamp' | 'lastModified'> & { id?: string }\<close>.
  It is spread over a stored record (\<open>{ ...v, ...visit }\<close>), and a spread copies exactly the
  keys the object has: a key that is missing keeps the old value, a key that is there
  overwrites it, also with \<open>undefined\<close>. So an optional key of the argument is a
  \<open>field\<close>: \<open>Omitted\<close>, or \<open>Given x\<close> with \<open>x = None\<close> for \<open>undefined\<close>.
  For \<open>id\<close> only the value is read, so \<open>d_id\<close> is an \<open>option\<close>.
\<close>

datatype 'a field = Omitted | Given "'a option"

record Draft =
  d_id :: "string option"
  d_businessName :: string
  d_contactPerson :: string
  d_ownerName :: string
  d_ownerContact :: "string field"
  d_numberOfPhones :: "number option"
  d_estimatedMonthlyPayment :: "number option"
  d_currentProvider :: string
  d_address :: string
  d_notes :: string
  d_visitType :: VisitType
  d_revisitDate :: "string field"
  d_isRevisitSuccessful :: "bool field"

section \<open>The application state and its handlers (App.tsx)\<close>

datatype View = ListView | DetailView | FormView

text \<open>The four state variables of \<open>App\<close>.\<close>

record App =
  visits :: "Visit list"
  view :: View
  selectedVisitId :: "string option"
  isEditing :: bool

text \<open>
  \<open>useLocalStorage('business-visits', [])\<close> starts from whatever list is stored;
  the other three variables start at \<open>'list'\<close>, \<open>null\<close> and \<open>false\<close>.
\<close>

definition initialApp :: "Visit list \<Rightarrow> App" where
  "initialApp stored =
     \<lparr>visits = stored, view = ListView, selectedVisitId = None, isEditing = False\<rparr>"

text \<open>
  \<open>selectedVisit\<close>: \<open>null\<close> when \<open>selectedVisitId\<close> is falsy (\<open>null\<close> or the empty
  string), else the first record with that id, or \<open>null\<close>.
\<close>

definition selectedVisit :: "App \<Rightarrow> Visit option" where
  "selectedVisit s =
     (case selectedVisitId s of
        None \<Rightarrow> None
      | Some i \<Rightarrow> if i = [] then None else find (\<lambda>v. visit_id v = i) (visits s))"

definition handleSelectVisit :: "string \<Rightarrow> App \<Rightarrow> App" where
  "handleSelectVisit i s = s\<lparr>selectedVisitId := Some i, view := DetailView\<rparr>"

definition handleGoBack :: "App \<Rightarrow> App" where
  "handleGoBack s =
     (if view s = DetailView then s\<lparr>view := ListView, selectedVisitId := None\<rparr>
      else if view s = FormView then
        (if isEditing s \<and> selectedVisit s \<noteq> None
         then s\<lparr>view := DetailView, isEditing := False\<rparr>
         else s\<lparr>view := ListView, isEditing := False\<rparr>)
      else s)"

definition handleNewVisit :: "App \<Rightarrow> App" where
  "handleNewVisit s = s\<lparr>selectedVisitId := None, isEditing := False, view := FormView\<rparr>"

definition handleEditVisit :: "App \<Rightarrow> App" where
  "handleEditVisit s =
     (if selectedVisit s \<noteq> None then s\<lparr>isEditing := True, view := FormView\<rparr> else s)"

definition handleEditVisitFromList :: "string \<Rightarrow> App \<Rightarrow> App" where
  "handleEditVisitFromList i s =
     s\<lparr>selectedVisitId := Some i, isEditing := True, view := FormView\<rparr>"

text \<open>
  \<open>handleDeleteVisit\<close>. The first argument is the answer of \<open>window.confirm\<close>.
  The comparison \<open>selectedVisitId === id\<close> reads the state the handler was created in.
\<close>

definition handleDeleteVisit :: "bool \<Rightarrow> string \<Rightarrow> App \<Rightarrow> App" where
  "handleDeleteVisit confirmed i s =
     (if confirmed then
        (let s' = s\<lparr>visits := filter (\<lambda>v. visit_id v \<noteq> i) (visits s)\<rparr>
         in if selectedVisitId s = Some i
            then s'\<lparr>view := ListView, selectedVisitId := None\<rparr>
            else s')
      else s)"

text \<open>
  The clock. \<open>new Date().toISOString()\<close> is read once for every record a \<open>map\<close> callback
  rewrites, and twice when a record is created; \<open>clk k\<close> is the string the \<open>k\<close>-th
  reading of one handler run returns (counted from 0).

  \<open>mapMatching clk k p f vs\<close> is \<open>vs.map(v => p(v) ? f(now, v) : v)\<close> where \<open>k\<close>
  readings have been taken before.
\<close>

fun mapMatching ::
  "(nat \<Rightarrow> string) \<Rightarrow> nat \<Rightarrow> (Visit \<Rightarrow> bool) \<Rightarrow> (string \<Rightarrow> Visit \<Rightarrow> Visit) \<Rightarrow> Visit list \<Rightarrow> Visit list"
where
  "mapMatching clk k p f [] = []"
| "mapMatching clk k p f (v # vs) =
     (if p v then f (clk k) v # mapMatching clk (Suc k) p f vs
      else v # mapMatching clk k p f vs)"

text \<open>What a spread of the argument leaves in an optional field of the record.\<close>

fun spread :: "'a field \<Rightarrow> 'a option \<Rightarrow> 'a option" where
  "spread Omitted old = old"
| "spread (Given x) old = x"

text \<open>
  \<open>{ ...v, ...visit, timestamp: v.timestamp, lastModified: now }\<close>, for a draft whose
  \<open>id\<close> is \<open>i\<close>.
\<close>

definition mergeVisit :: "string \<Rightarrow> Draft \<Rightarrow> string \<Rightarrow> Visit \<Rightarrow> Visit" where
  "mergeVisit i d now v =
     \<lparr>visit_id = i,
      businessName = d_businessName d,
      timestamp = timestamp v,
      lastModified = Some now,
      contactPerson = d_contactPerson d,
      ownerName = d_ownerName d,
      ownerContact = spread (d_ownerContact d) (ownerContact v),
      numberOfPhones = d_numberOfPhones d,
      estimatedMonthlyPayment = d_estimatedMonthlyPayment d,
      currentProvider = d_currentProvider d,
      address = d_address d,
      visit_notes = d_notes d,
      visitType = d_visitType d,
      revisitDate = spread (d_revisitDate d) (revisitDate v),
      isRevisitSuccessful = spread (d_isRevisitSuccessful d) (isRevisitSuccessful v)\<rparr>"

text \<open>
  \<open>{ ...visit, id: new Date().toISOString() + Math.random(), timestamp: new Date().toISOString() }\<close>:
  \<open>now0\<close> and \<open>now1\<close> are the two clock readings, \<open>rnd\<close> is the random number as the
  string concatenation renders it.
\<close>

definition newVisit :: "string \<Rightarrow> string \<Rightarrow> string \<Rightarrow> Draft \<Rightarrow> Visit" where
  "newVisit now0 rnd now1 d =
     \<lparr>visit_id = now0 @ rnd,
      businessName = d_businessName d,
      timestamp = now1,
      lastModified = None,
      contactPerson = d_contactPerson d,
      ownerName = d_ownerName d,
      ownerContact = spread (d_ownerContact d) None,
      numberOfPhones = d_numberOfPhones d,
      estimatedMonthlyPayment = d_estimatedMonthlyPayment d,
      currentProvider = d_currentProvider d,
      address = d_address d,
      visit_notes = d_notes d,
      visitType = d_visitType d,
      revisitDate = spread (d_revisitDate d) None,
      isRevisitSuccessful = spread (d_isRevisitSuccessful d) None\<rparr>"

text \<open>
  \<open>handleSaveVisit\<close>: the edit branch is taken when \<open>visit.id\<close> is truthy (a non-empty
  string), the create branch otherwise; both end in the list view.
\<close>

definition handleSaveVisit :: "(nat \<Rightarrow> string) \<Rightarrow> string \<Rightarrow> Draft \<Rightarrow> App \<Rightarrow> App" where
  "handleSaveVisit clk rnd d s =
     (let vs' =
        (case d_id d of
           Some i \<Rightarrow>
             if i \<noteq> [] then mapMatching clk 0 (\<lambda>v. visit_id v = i) (mergeVisit i d) (visits s)
             else newVisit (clk 0) rnd (clk 1) d # visits s
         | None \<Rightarrow> newVisit (clk 0) rnd (clk 1) d # visits s)
      in s\<lparr>visits := vs', view := ListView, selectedVisitId := None, isEditing := False\<rparr>)"

text \<open>
  \<open>handleToggleRevisitSuccess\<close>: \<open>!v.isRevisitSuccessful\<close> is \<open>true\<close> for a missing
  value.
\<close>

definition toggled :: "string \<Rightarrow> Visit \<Rightarrow> Visit" where
  "toggled now v =
     v\<lparr>isRevisitSuccessful := Some (\<not> (case isRevisitSuccessful v of None \<Rightarrow> False | Some b \<Rightarrow> b)),
       lastModified := Some now\<rparr>"

definition handleToggleRevisitSuccess :: "(nat \<Rightarrow> string) \<Rightarrow> string \<Rightarrow> App \<Rightarrow> App" where
  "handleToggleRevisitSuccess clk i s =
     s\<lparr>visits := mapMatching clk 0 (\<lambda>v. visit_id v = i) toggled (visits s)\<rparr>"

text \<open>
  \<open>renderContent\<close>: which component is shown, with the data it is given.
  \<open>selectedVisit && <VisitDetail/>\<close> is \<open>null\<close> when there is no selected record, and
  React renders nothing for it.
\<close>

datatype Rendered =
    Nothing
  | RenderDetail Visit
  | RenderForm "Visit option"
  | RenderList "Visit list"

definition renderContent :: "App \<Rightarrow> Rendered" where
  "renderContent s =
     (case view s of
        DetailView \<Rightarrow> (case selectedVisit s of None \<Rightarrow> Nothing | Some v \<Rightarrow> RenderDetail v)
      | FormView \<Rightarrow> RenderForm (if isEditing s then selectedVisit s else None)
      | ListView \<Rightarrow> RenderList (visits s))"

text \<open>
  The states of the controller. It starts in the list view with the stored collection;
  every handler is a transition, taken with any argument of its parameter type
  (\<open>handleSelectVisit(id: string)\<close>); and the collection can be replaced as a whole,
  which is what \<open>setVisits\<close> does for the import of \<open>VisitList\<close>.
\<close>

inductive reachable :: "App \<Rightarrow> bool" where
  start: "reachable (initialApp stored)"
| selectVisit: "reachable s \<Longrightarrow> reachable (handleSelectVisit i s)"
| goBack: "reachable s \<Longrightarrow> reachable (handleGoBack s)"
| newVisit: "reachable s \<Longrightarrow> reachable (handleNewVisit s)"
| editVisit: "reachable s \<Longrightarrow> reachable (handleEditVisit s)"
| editVisitFromList: "reachable s \<Longrightarrow> reachable (handleEditVisitFromList i s)"
| deleteVisit: "reachable s \<Longrightarrow> reachable (handleDeleteVisit confirmed i s)"
| saveVisit: "reachable s \<Longrightarrow> reachable (handleSaveVisit clk rnd d s)"
| toggleRevisitSuccess: "reachable s \<Longrightarrow> reachable (handleToggleRevisitSuccess clk i s)"
| setVisits: "reachable s \<Longrightarrow> reachable (s\<lparr>visits := vs\<rparr>)"

section \<open>The form (VisitForm.tsx)\<close>

text \<open>
  The form state \<open>FormData\<close>: the text of every input; the two numbers and the revisit
  date are strings here. Every writer of the state stores a string in \<open>ownerContact\<close>,
  and none stores \<open>isRevisitSuccessful\<close>.
\<close>

record FormData =
  fd_visitType :: VisitType
  fd_businessName :: string
  fd_contactPerson :: string
  fd_ownerName :: string
  fd_ownerContact :: string
  fd_numberOfPhones :: string
  fd_estimatedMonthlyPayment :: string
  fd_currentProvider :: string
  fd_address :: string
  fd_notes :: string
  fd_revisitDate :: string

text \<open>
  How \<open>handleSubmit\<close> can end without calling \<open>onSave\<close>: the alert
  \<open>'Business Name is required.'\<close> followed by \<open>return\<close>, or the \<open>RangeError\<close> that
  \<open>toISOString\<close> throws for a date that does not parse.
\<close>

datatype submitFailure = BusinessNameRequired | InvalidRevisitDate

text \<open>
  \<open>handleSubmit\<close>, up to the argument it passes to \<open>onSave\<close>. The platform functions
  are parameters: \<open>parseFloat\<close>, \<open>String.prototype.trim\<close>, and \<open>toISO s\<close> for
  \<open>new Date(s).toISOString()\<close> (\<open>None\<close> when it throws).
\<close>

definition handleSubmit ::
  "(string \<Rightarrow> number) \<Rightarrow> (string \<Rightarrow> string) \<Rightarrow> (string \<Rightarrow> string option)
   \<Rightarrow> Visit option \<Rightarrow> FormData \<Rightarrow> submitFailure + Draft"
where
  "handleSubmit parseFloat trim toISO initialVisit fd =
     (if fd_businessName fd = [] then Inl BusinessNameRequired
      else if fd_revisitDate fd \<noteq> [] \<and> toISO (fd_revisitDate fd) = None then Inl InvalidRevisitDate
      else Inr
        \<lparr>d_id = map_option visit_id initialVisit,
         d_businessName = fd_businessName fd,
         d_contactPerson = fd_contactPerson fd,
         d_ownerName = fd_ownerName fd,
         d_ownerContact = Given (Some (fd_ownerContact fd)),
         d_numberOfPhones =
           (if trim (fd_numberOfPhones fd) = [] then None
            else Some (parseFloat (fd_numberOfPhones fd))),
         d_estimatedMonthlyPayment =
           (if trim (fd_estimatedMonthlyPayment fd) = [] then None
            else Some (parseFloat (fd_estimatedMonthlyPayment fd))),
         d_currentProvider = fd_currentProvider fd,
         d_address = fd_address fd,
         d_notes = fd_notes fd,
         d_visitType = fd_visitType fd,
         d_revisitDate =
           Given (if fd_revisitDate fd \<noteq> [] then toISO (fd_revisitDate fd) else None),
         d_isRevisitSuccessful = Omitted\<rparr>)"

text \<open>
  The form as \<open>renderContent\<close> wires it:
  \<open><VisitForm onSave={handleSaveVisit} initialVisit={isEditing ? selectedVisit : null} />\<close>.
  A failure leaves the state of \<open>App\<close> as it is, since \<open>onSave\<close> is not called.
\<close>

definition submitForm ::
  "(string \<Rightarrow> number) \<Rightarrow> (string \<Rightarrow> string) \<Rightarrow> (string \<Rightarrow> string option)
   \<Rightarrow> (nat \<Rightarrow> string) \<Rightarrow> string \<Rightarrow> FormData \<Rightarrow> App \<Rightarrow> submitFailure + App"
where
  "submitForm parseFloat trim toISO clk rnd fd s =
     (case handleSubmit parseFloat trim toISO (if isEditing s then selectedVisit s else None) fd of
        Inl e \<Rightarrow> Inl e
      | Inr d \<Rightarrow> Inr (handleSaveVisit clk rnd d s))"

section \<open>The list: filtering and sorting (VisitList.tsx, FilterModal.tsx)\<close>

datatype SortBy = Newest | Oldest | LastModified

datatype VisitTypeFilter = AllTypes | Only VisitType

record Filters =
  sortBy :: SortBy
  visitTypeFilter :: VisitTypeFilter
  providers :: "string list"

definition initialFilters :: Filters where
  "initialFilters = \<lparr>sortBy = Newest, visitTypeFilter = AllTypes, providers = []\<rparr>"

text \<open>\<open>includesStr s q\<close> is \<open>s.includes(q)\<close> on strings: \<open>q\<close> occurs in \<open>s\<close> as a contiguous run.\<close>

fun startsWith :: "string \<Rightarrow> string \<Rightarrow> bool" where
  "startsWith s [] = True"
| "startsWith [] (c # q) = False"
| "startsWith (a # s) (c # q) = (a = c \<and> startsWith s q)"

fun includesStr :: "string \<Rightarrow> string \<Rightarrow> bool" where
  "includesStr [] q = (q = [])"
| "includesStr (a # s) q = (startsWith (a # s) q \<or> includesStr s q)"

text \<open>
  The callback of \<open>filter\<close>, with its three early returns. \<open>lower\<close> is
  \<open>String.prototype.toLowerCase\<close>; \<open>searchQuery\<close> is truthy when it is not empty.
\<close>

definition keeps :: "(string \<Rightarrow> string) \<Rightarrow> string \<Rightarrow> Filters \<Rightarrow> Visit \<Rightarrow> bool" where
  "keeps lower searchQuery activeFilters visit =
     (let lowerCaseQuery = lower searchQuery in
      if visitTypeFilter activeFilters \<noteq> AllTypes
         \<and> Only (visitType visit) \<noteq> visitTypeFilter activeFilters then False
      else if length (providers activeFilters) > 0
         \<and> currentProvider visit \<notin> set (providers activeFilters) then False
      else if searchQuery \<noteq> [] \<and> \<not> (includesStr (lower (businessName visit)) lowerCaseQuery
                \<or> includesStr (lower (contactPerson visit)) lowerCaseQuery
                \<or> includesStr (lower (address visit)) lowerCaseQuery) then False
      else True)"

text \<open>
  Times. \<open>getTime s\<close> is \<open>new Date(s).getTime()\<close>: the milliseconds since the epoch, or
  \<open>None\<close> for \<open>NaN\<close> when \<open>s\<close> is not a date. A difference with a \<open>NaN\<close> is a \<open>NaN\<close>.
\<close>

definition minusTime :: "int option \<Rightarrow> int option \<Rightarrow> int option" where
  "minusTime x y = (case x of None \<Rightarrow> None | Some a \<Rightarrow> (case y of None \<Rightarrow> None | Some b \<Rightarrow> Some (a - b)))"

text \<open>\<open>a.lastModified || a.timestamp\<close>: the empty string is falsy as well.\<close>

definition lastModifiedOrTimestamp :: "Visit \<Rightarrow> string" where
  "lastModifiedOrTimestamp a =
     (case lastModified a of
        None \<Rightarrow> timestamp a
      | Some l \<Rightarrow> if l = [] then timestamp a else l)"

text \<open>The comparator handed to \<open>sort\<close>.\<close>

definition compareVisits :: "(string \<Rightarrow> int option) \<Rightarrow> Filters \<Rightarrow> Visit \<Rightarrow> Visit \<Rightarrow> int option" where
  "compareVisits getTime activeFilters a b =
     (if sortBy activeFilters = LastModified then
        (let timeA = getTime (lastModifiedOrTimestamp a);
             timeB = getTime (lastModifiedOrTimestamp b)
         in minusTime timeB timeA)
      else
        (let timeA = getTime (timestamp a);
             timeB = getTime (timestamp b)
         in if sortBy activeFilters = Newest then minusTime timeB timeA else minusTime timeA timeB))"

text \<open>
  \<open>Array.prototype.sort\<close> with a comparator. ECMAScript requires the sort to be stable,
  and reads a comparator result \<open>NaN\<close> as \<open>+0\<close>. For a comparator that is a consistent
  ordering the result is the same for every stable algorithm; the model is insertion
  sort, which puts an element in front of the first one it does not come after.
\<close>

definition notAfter :: "int option \<Rightarrow> bool" where
  "notAfter r = (case r of None \<Rightarrow> True | Some n \<Rightarrow> n \<le> 0)"

fun insertSorted :: "('a \<Rightarrow> 'a \<Rightarrow> int option) \<Rightarrow> 'a \<Rightarrow> 'a list \<Rightarrow> 'a list" where
  "insertSorted cmp x [] = [x]"
| "insertSorted cmp x (y # ys) =
     (if notAfter (cmp x y) then x # y # ys else y # insertSorted cmp x ys)"

fun sortWith :: "('a \<Rightarrow> 'a \<Rightarrow> int option) \<Rightarrow> 'a list \<Rightarrow> 'a list" where
  "sortWith cmp [] = []"
| "sortWith cmp (x # xs) = insertSorted cmp x (sortWith cmp xs)"

text \<open>\<open>filteredVisits\<close>: \<open>visits.filter(...).sort(...)\<close>; the filter makes a new array.\<close>

definition filteredVisits ::
  "(string \<Rightarrow> string) \<Rightarrow> (string \<Rightarrow> int option) \<Rightarrow> Visit list \<Rightarrow> string \<Rightarrow> Filters \<Rightarrow> Visit list"
where
  "filteredVisits lower getTime vs searchQuery activeFilters =
     sortWith (compareVisits getTime activeFilters) (filter (keeps lower searchQuery activeFilters) vs)"

section \<open>Import (VisitList.tsx, handleFileChange)\<close>

text \<open>
  What \<open>JSON.parse\<close> returns. The cast \<open>as Visit[]\<close> checks nothing, so the handler
  works on such values, and so does the list it stores: the list of this section is the
  collection as it is at run time, a list of parsed values. An object is the list of its
  own properties.
\<close>

datatype json =
    JNull
  | JBool bool
  | JNum number
  | JStr string
  | JArr "json list"
  | JObj "(string \<times> json) list"

text \<open>What can be thrown inside the \<open>try\<close> block; each is caught and shown in an alert.\<close>

datatype thrown = FileNotReadable | SyntaxError | TypeError | InvalidFileFormat

text \<open>
  \<open>v.k\<close> for one of the keys \<open>id\<close>, \<open>businessName\<close>, \<open>timestamp\<close>, which no
  prototype of a parsed value defines: a \<open>TypeError\<close> on \<open>null\<close>, the own property
  of an object, \<open>undefined\<close> (\<open>None\<close>) on anything else.
\<close>

fun getProp :: "json \<Rightarrow> string \<Rightarrow> thrown + json option" where
  "getProp JNull k = Inl TypeError"
| "getProp (JObj kvs) k = Inr (map_of kvs k)"
| "getProp (JBool b) k = Inr None"
| "getProp (JNum n) k = Inr None"
| "getProp (JStr s) k = Inr None"
| "getProp (JArr xs) k = Inr None"

text \<open>JavaScript truthiness of a property value.\<close>

fun truthy :: "json option \<Rightarrow> bool" where
  "truthy None = False"
| "truthy (Some JNull) = False"
| "truthy (Some (JBool b)) = b"
| "truthy (Some (JNum n)) = (case n of Finite r \<Rightarrow> r \<noteq> 0 | Infinite b \<Rightarrow> True | NaN \<Rightarrow> False)"
| "truthy (Some (JStr s)) = (s \<noteq> [])"
| "truthy (Some (JArr xs)) = True"
| "truthy (Some (JObj kvs)) = True"

text \<open>The callback \<open>v => v.id && v.businessName && v.timestamp\<close>, as a condition.\<close>

definition hasRequired :: "json \<Rightarrow> thrown + bool" where
  "hasRequired v =
     (case getProp v ''id'' of
        Inl e \<Rightarrow> Inl e
      | Inr a \<Rightarrow>
          if \<not> truthy a then Inr False
          else (case getProp v ''businessName'' of
                  Inl e \<Rightarrow> Inl e
                | Inr b \<Rightarrow>
                    if \<not> truthy b then Inr False
                    else (case getProp v ''timestamp'' of
                            Inl e \<Rightarrow> Inl e
                          | Inr c \<Rightarrow> Inr (truthy c))))"

text \<open>\<open>Array.prototype.every\<close>: stops at the first element that fails or throws.\<close>

fun every :: "(json \<Rightarrow> thrown + bool) \<Rightarrow> json list \<Rightarrow> thrown + bool" where
  "every p [] = Inr True"
| "every p (v # vs) =
     (case p v of
        Inl e \<Rightarrow> Inl e
      | Inr ok \<Rightarrow> if ok then every p vs else Inr False)"

text \<open>
  The dialogs the handler opens, in order. \<open>ConfirmReplace n m\<close> is the question
  \<open>Are you sure you want to replace all n existing logs with m imported logs? ...\<close>.
\<close>

datatype dialog = ConfirmReplace nat nat | AlertImported | AlertImportFailed thrown

text \<open>
  \<open>reader.onload\<close>. \<open>parse\<close> is \<open>JSON.parse\<close> (\<open>None\<close> when it throws a
  \<open>SyntaxError\<close>), \<open>confirm n m\<close> is the answer to \<open>ConfirmReplace n m\<close>, \<open>text\<close> is
  \<open>e.target?.result\<close> when it is a string. The result is the collection afterwards and
  the dialogs shown.
\<close>

definition readerOnLoad ::
  "(string \<Rightarrow> json option) \<Rightarrow> (nat \<Rightarrow> nat \<Rightarrow> bool) \<Rightarrow> string option \<Rightarrow> json list
   \<Rightarrow> json list \<times> dialog list"
where
  "readerOnLoad parse confirm text vs =
     (case text of
        None \<Rightarrow> (vs, [AlertImportFailed FileNotReadable])
      | Some t \<Rightarrow>
          (case parse t of
             None \<Rightarrow> (vs, [AlertImportFailed SyntaxError])
           | Some (JArr importedVisits) \<Rightarrow>
               (case every hasRequired importedVisits of
                  Inl e \<Rightarrow> (vs, [AlertImportFailed e])
                | Inr ok \<Rightarrow>
                    if ok then
                      (if confirm (length vs) (length importedVisits)
                       then (importedVisits,
                             [ConfirmReplace (length vs) (length importedVisits), AlertImported])
                       else (vs, [ConfirmReplace (length vs) (length importedVisits)]))
                    else (vs, [AlertImportFailed InvalidFileFormat]))
           | Some other \<Rightarrow> (vs, [AlertImportFailed InvalidFileFormat])))"

text \<open>
  \<open>handleFileChange\<close>: nothing happens without a file; otherwise the file is read and
  \<open>reader.onload\<close> runs on its content.
\<close>

definition handleFileChange ::
  "(string \<Rightarrow> json option) \<Rightarrow> (nat \<Rightarrow> nat \<Rightarrow> bool) \<Rightarrow> string option option \<Rightarrow> json list
   \<Rightarrow> json list \<times> dialog list"
where
  "handleFileChange parse confirm file vs =
     (case file of
        None \<Rightarrow> (vs, [])
      | Some text \<Rightarrow> readerOnLoad parse confirm text vs)"

section \<open>Notions used in the statements\<close>

text \<open>
  \<open>readingsBefore i vs n\<close>: how many records with the id \<open>i\<close> stand before position
  \<open>n\<close>, which is the number of the clock reading that the record at \<open>n\<close> receives.
\<close>

definition readingsBefore :: "string \<Rightarrow> Visit list \<Rightarrow> nat \<Rightarrow> nat" where
  "readingsBefore i vs n = length (filter (\<lambda>v. visit_id v = i) (take n vs))"

text \<open>\<open>notBefore getTime t u\<close>: both strings are dates, and \<open>u\<close> is not earlier than \<open>t\<close>.\<close>

definition notBefore :: "(string \<Rightarrow> int option) \<Rightarrow> string \<Rightarrow> string \<Rightarrow> bool" where
  "notBefore getTime t u =
     (case getTime t of
        None \<Rightarrow> False
      | Some a \<Rightarrow> (case getTime u of None \<Rightarrow> False | Some b \<Rightarrow> a \<le> b))"

text \<open>
  The dates of a record are well formed, as the data model has them: the time stamp
  parses, and so does \<open>lastModified\<close> when it is there.
\<close>

definition validDates :: "(string \<Rightarrow> int option) \<Rightarrow> Visit \<Rightarrow> bool" where
  "validDates getTime v =
     (getTime (timestamp v) \<noteq> None
      \<and> (case lastModified v of None \<Rightarrow> True | Some l \<Rightarrow> l \<noteq> [] \<and> getTime l \<noteq> None))"

text \<open>The key of the sort order \<open>lastModified\<close>: that date when present, else the time stamp.\<close>

definition modifiedKey :: "Visit \<Rightarrow> string" where
  "modifiedKey v = (case lastModified v of None \<Rightarrow> timestamp v | Some l \<Rightarrow> l)"

text \<open>
  The property \<open>k\<close> of an element of an import document, \<open>None\<close> when the element has
  none; and the condition of the import: the three required properties are there and
  truthy (for a string: not empty).
\<close>

definition property :: "json \<Rightarrow> string \<Rightarrow> json option" where
  "property v k = (case v of JObj kvs \<Rightarrow> map_of kvs k | _ \<Rightarrow> None)"

definition wellFormedElement :: "json \<Rightarrow> bool" where
  "wellFormedElement v =
     (truthy (property v ''id'') \<and> truthy (property v ''businessName'')
      \<and> truthy (property v ''timestamp''))"

section \<open>Concrete data\<close>

text \<open>Inputs at which the theorems below are evaluated.\<close>

definition exampleVisit :: "string \<Rightarrow> string \<Rightarrow> Visit" where
  "exampleVisit i t =
     \<lparr>visit_id = i,
      businessName = ''Acme Corp'',
      timestamp = t,
      lastModified = None,
      contactPerson = ''Pat'',
      ownerName = ''Sam'',
      ownerContact = None,
      numberOfPhones = Some (Finite 3),
      estimatedMonthlyPayment = None,
      currentProvider = ''Provider X'',
      address = ''1 Main St'',
      visit_notes = [],
      visitType = Call,
      revisitDate = None,
      isRevisitSuccessful = None\<rparr>"

definition exampleDraft :: "string option \<Rightarrow> Draft" where
  "exampleDraft i =
     \<lparr>d_id = i,
      d_businessName = ''Acme Ltd'',
      d_contactPerson = ''Pat'',
      d_ownerName = ''Sam'',
      d_ownerContact = Given (Some ''555-0100''),
      d_numberOfPhones = None,
      d_estimatedMonthlyPayment = None,
      d_currentProvider = ''Provider X'',
      d_address = ''1 Main St'',
      d_notes = ''called back'',
      d_visitType = FollowUp,
      d_revisitDate = Given None,
      d_isRevisitSuccessful = Omitted\<rparr>"

definition exampleForm :: "string \<Rightarrow> FormData" where
  "exampleForm name =
     \<lparr>fd_visitType = FollowUp,
      fd_businessName = name,
      fd_contactPerson = ''Pat'',
      fd_ownerName = [],
      fd_ownerContact = [],
      fd_numberOfPhones = [],
      fd_estimatedMonthlyPayment = [],
      fd_currentProvider = ''Provider X'',
      fd_address = [],
      fd_notes = [],
      fd_revisitDate = []\<rparr>"

definition day1 :: string where "day1 = ''2024-01-01T00:00:00.000Z''"
definition day2 :: string where "day2 = ''2024-01-02T00:00:00.000Z''"
definition day3 :: string where "day3 = ''2024-01-03T00:00:00.000Z''"

text \<open>A date parser that knows three days, and a clock stuck on the third.\<close>

definition exampleGetTime :: "string \<Rightarrow> int option" where
  "exampleGetTime s =
     (if s = day1 then Some 1704067200000
      else if s = day2 then Some 1704153600000
      else if s = day3 then Some 1704240000000
      else None)"

definition exampleClock :: "nat \<Rightarrow> string" where
  "exampleClock k = day3"

text \<open>Lower case for the letters of ASCII.\<close>

definition asciiLower :: "string \<Rightarrow> string" where
  "asciiLower s =
     map (\<lambda>c. case map_of (zip ''ABCDEFGHIJKLMNOPQRSTUVWXYZ'' ''abcdefghijklmnopqrstuvwxyz'') c of
                 None \<Rightarrow> c
               | Some l \<Rightarrow> l) s"

definition exampleApp :: App where
  "exampleApp = initialApp [exampleVisit ''a'' day1, exampleVisit ''b'' day2]"

text \<open>A collection that already holds the id a creation on the third day would draw.\<close>

definition collidingApp :: App where
  "collidingApp = initialApp [exampleVisit (day3 @ ''0.5'') day1]"

text \<open>
  Two states in which the selected record is gone: a record is selected, or opened for
  editing, and the collection is then replaced by one without it.
\<close>

definition staleDetail :: App where
  "staleDetail = (handleSelectVisit ''a'' exampleApp)\<lparr>visits := [exampleVisit ''b'' day2]\<rparr>"

definition staleForm :: App where
  "staleForm = (handleEditVisitFromList ''a'' exampleApp)\<lparr>visits := [exampleVisit ''b'' day2]\<rparr>"

text \<open>
  An import document with one element that has the three required properties and
  nothing else of a visit: a number as id, \<open>true\<close> as business name, an array as time
  stamp, an unknown visit type and an extra property.
\<close>

definition oddElement :: json where
  "oddElement =
     JObj [(''id'', JNum (Finite 42)), (''businessName'', JBool True), (''timestamp'', JArr []),
           (''visitType'', JStr ''Bogus''), (''extra'', JNull)]"

text \<open>An element as an export writes it, cut to the required properties, and one without a name.\<close>

definition goodElement :: json where
  "goodElement =
     JObj [(''id'', JStr ''x1''), (''businessName'', JStr ''Acme Corp''), (''timestamp'', JStr day1)]"

definition noNameElement :: json where
  "noNameElement = JObj [(''id'', JStr ''x2''), (''timestamp'', JStr day1)]"

section \<open>Rewriting the records with a given id\<close>

lemma mapMatching_none: "\<forall>v\<in>set vs. \<not> p v \<Longrightarrow> mapMatching clk k p f vs = vs"
  by (induction vs) auto

lemma length_mapMatching: "length (mapMatching clk k p f vs) = length vs"
  by (induction vs arbitrary: k) auto

lemma nth_mapMatching:
  "n < length vs \<Longrightarrow>
   mapMatching clk k p f vs ! n =
     (if p (vs ! n) then f (clk (k + length (filter p (take n vs)))) (vs ! n) else vs ! n)"
proof (induction vs arbitrary: k n)
  case Nil then show ?case by simp
next
  case (Cons v vs)
  show ?case
  proof (cases n)
    case 0 then show ?thesis by simp
  next
    case (Suc m)
    with Cons.prems have "m < length vs" by simp
    from Cons.IH[OF this] Suc show ?thesis by simp
  qed
qed

lemma map_id_mapMatching:
  "(\<And>now v. p v \<Longrightarrow> visit_id (f now v) = visit_id v) \<Longrightarrow>
   map visit_id (mapMatching clk k p f vs) = map visit_id vs"
  by (induction vs arbitrary: k) auto

lemma readingsBefore_cong:
  "map visit_id ws = map visit_id vs \<Longrightarrow> readingsBefore i ws n = readingsBefore i vs n"
proof -
  assume a: "map visit_id ws = map visit_id vs"
  have "readingsBefore i xs n = length (filter (\<lambda>j. j = i) (take n (map visit_id xs)))" for xs
    unfolding readingsBefore_def take_map filter_map by (simp add: comp_def)
  with a show ?thesis by simp
qed

section \<open>The repository operations\<close>

subsection \<open>Saving an edit\<close>

text \<open>
  C1 fails on the code. \<open>handleSaveVisit\<close> never raises anything: for an id that no
  record carries, \<open>map\<close> rewrites no record, and the handler returns to the list as after
  any other save. In the example the state before is already the list view, so the whole
  state is what it was.
\<close>

theorem update_missing_counterexample:
  "''ghost'' \<notin> set (map visit_id (visits exampleApp))
   \<and> handleSaveVisit exampleClock ''0.5'' (exampleDraft (Some ''ghost'')) exampleApp = exampleApp"
  by (simp add: handleSaveVisit_def exampleApp_def initialApp_def exampleVisit_def exampleDraft_def)

text \<open>
  C1 (amended): for every collection and every non-empty id that is the id of no record,
  saving an edit that targets this id raises no error: the collection is left as it is,
  and the controller returns to the list view with the selection and the editing flag
  cleared.
\<close>

theorem update_missing_unchanged:
  assumes "d_id d = Some i" and "i \<noteq> []" and "i \<notin> visit_id ` set (visits s)"
  shows "handleSaveVisit clk rnd d s = s\<lparr>view := ListView, selectedVisitId := None, isEditing := False\<rparr>"
proof -
  from assms(3) have "\<forall>v\<in>set (visits s). \<not> visit_id v = i" by auto
  from mapMatching_none[OF this] assms(1,2) show ?thesis
    by (simp add: handleSaveVisit_def)
qed

theorem update_missing_unchanged_witness:
  "d_id (exampleDraft (Some ''ghost'')) = Some ''ghost'' \<and> ''ghost'' \<noteq> []
   \<and> ''ghost'' \<notin> visit_id ` set (visits exampleApp)
   \<and> handleSaveVisit exampleClock ''0.5'' (exampleDraft (Some ''ghost'')) exampleApp
       = exampleApp\<lparr>view := ListView, selectedVisitId := None, isEditing := False\<rparr>"
proof -
  have a: "d_id (exampleDraft (Some ''ghost'')) = Some ''ghost''" by (simp add: exampleDraft_def)
  have b: "''ghost'' \<noteq> []" by simp
  have c: "''ghost'' \<notin> visit_id ` set (visits exampleApp)"
    by (simp add: exampleApp_def initialApp_def exampleVisit_def)
  from a b c update_missing_unchanged[OF a b c, of exampleClock "''0.5''"] show ?thesis by blast
qed

text \<open>
  C6: for every collection and every (non-empty) id of an existing record, saving an edit
  keeps the length of the collection and the id and time stamp of that record, takes
  every field of the draft over the previous value (an optional field the draft does not
  have keeps its value), sets \<open>lastModified\<close> to the clock reading taken for the record,
  and leaves the records with another id as they are. When the clock reading is not
  before the record's time stamp or its previous \<open>lastModified\<close>, neither is the new
  \<open>lastModified\<close>.
\<close>

theorem update_existing:
  fixes clk :: "nat \<Rightarrow> string" and rnd i :: string and d :: Draft and s :: App and n :: nat
    and getTime :: "string \<Rightarrow> int option"
  assumes "d_id d = Some i" and "i \<noteq> []"
    and "n < length (visits s)" and "visit_id (visits s ! n) = i"
  defines "v \<equiv> visits s ! n"
  defines "s' \<equiv> handleSaveVisit clk rnd d s"
  defines "v' \<equiv> visits s' ! n"
  defines "now \<equiv> clk (readingsBefore i (visits s) n)"
  shows "length (visits s') = length (visits s)
    \<and> visit_id v' = visit_id v \<and> timestamp v' = timestamp v
    \<and> lastModified v' = Some now
    \<and> businessName v' = d_businessName d \<and> contactPerson v' = d_contactPerson d
    \<and> ownerName v' = d_ownerName d \<and> numberOfPhones v' = d_numberOfPhones d
    \<and> estimatedMonthlyPayment v' = d_estimatedMonthlyPayment d
    \<and> currentProvider v' = d_currentProvider d \<and> address v' = d_address d
    \<and> visit_notes v' = d_notes d \<and> visitType v' = d_visitType d
    \<and> ownerContact v' = (case d_ownerContact d of Omitted \<Rightarrow> ownerContact v | Given x \<Rightarrow> x)
    \<and> revisitDate v' = (case d_revisitDate d of Omitted \<Rightarrow> revisitDate v | Given x \<Rightarrow> x)
    \<and> isRevisitSuccessful v' =
        (case d_isRevisitSuccessful d of Omitted \<Rightarrow> isRevisitSuccessful v | Given x \<Rightarrow> x)
    \<and> (\<forall>m < length (visits s). visit_id (visits s ! m) \<noteq> i \<longrightarrow> visits s' ! m = visits s ! m)
    \<and> (notBefore getTime (timestamp v) now \<longrightarrow> notBefore getTime (timestamp v') now)
    \<and> (\<forall>l. lastModified v = Some l \<and> notBefore getTime l now
          \<longrightarrow> (\<exists>l'. lastModified v' = Some l' \<and> notBefore getTime l l'))"
proof -
  have sp: "spread x old = (case x of Omitted \<Rightarrow> old | Given y \<Rightarrow> y)" for x :: "'a field" and old
    by (cases x) auto
  have vs': "visits s' = mapMatching clk 0 (\<lambda>v. visit_id v = i) (mergeVisit i d) (visits s)"
    using assms(1,2) by (simp add: s'_def handleSaveVisit_def)
  have len: "length (visits s') = length (visits s)"
    by (simp add: vs' length_mapMatching)
  have step: "visits s' ! m =
      (if visit_id (visits s ! m) = i
       then mergeVisit i d (clk (readingsBefore i (visits s) m)) (visits s ! m) else visits s ! m)"
    if "m < length (visits s)" for m
    using nth_mapMatching[OF that, of clk 0 "\<lambda>v. visit_id v = i" "mergeVisit i d"]
    by (simp add: vs' readingsBefore_def)
  have v'_eq: "v' = mergeVisit i d now v"
    using step[OF assms(3)] assms(4) by (simp add: v'_def v_def now_def)
  have other: "\<forall>m < length (visits s). visit_id (visits s ! m) \<noteq> i \<longrightarrow> visits s' ! m = visits s ! m"
    using step by simp
  have idv: "visit_id v = i" using assms(4) by (simp add: v_def)
  show ?thesis
    unfolding v'_eq using len other idv
    by (simp add: mergeVisit_def sp)
qed

theorem update_existing_witness:
  "visit_id (visits exampleApp ! 0) = ''a''
   \<and> visit_id (visits (handleSaveVisit exampleClock ''0.5'' (exampleDraft (Some ''a'')) exampleApp) ! 0) = ''a''
   \<and> timestamp (visits (handleSaveVisit exampleClock ''0.5'' (exampleDraft (Some ''a'')) exampleApp) ! 0) = day1
   \<and> lastModified (visits (handleSaveVisit exampleClock ''0.5'' (exampleDraft (Some ''a'')) exampleApp) ! 0) = Some day3
   \<and> businessName (visits (handleSaveVisit exampleClock ''0.5'' (exampleDraft (Some ''a'')) exampleApp) ! 0) = ''Acme Ltd''
   \<and> visits (handleSaveVisit exampleClock ''0.5'' (exampleDraft (Some ''a'')) exampleApp) ! 1 = exampleVisit ''b'' day2
   \<and> notBefore exampleGetTime day1 day3"
proof -
  have a: "d_id (exampleDraft (Some ''a'')) = Some ''a''" by (simp add: exampleDraft_def)
  have b: "''a'' \<noteq> []" by simp
  have c: "0 < length (visits exampleApp)" by (simp add: exampleApp_def initialApp_def)
  have d: "visit_id (visits exampleApp ! 0) = ''a''"
    by (simp add: exampleApp_def initialApp_def exampleVisit_def)
  have e: "readingsBefore ''a'' (visits exampleApp) 0 = 0" by (simp add: readingsBefore_def)
  have f: "1 < length (visits exampleApp)" "visit_id (visits exampleApp ! 1) \<noteq> ''a''"
      "visits exampleApp ! 1 = exampleVisit ''b'' day2"
      "timestamp (visits exampleApp ! 0) = day1"
    by (simp_all add: exampleApp_def initialApp_def exampleVisit_def)
  have g: "notBefore exampleGetTime day1 day3"
    by (simp add: notBefore_def exampleGetTime_def day1_def day2_def day3_def)
  have h: "d_businessName (exampleDraft (Some ''a'')) = ''Acme Ltd''" by (simp add: exampleDraft_def)
  note th = update_existing[OF a b c d, of exampleClock "''0.5''" exampleGetTime]
  from th have 1: "visit_id (visits (handleSaveVisit exampleClock ''0.5'' (exampleDraft (Some ''a'')) exampleApp) ! 0) = visit_id (visits exampleApp ! 0)" by blast
  from th have 2: "timestamp (visits (handleSaveVisit exampleClock ''0.5'' (exampleDraft (Some ''a'')) exampleApp) ! 0) = timestamp (visits exampleApp ! 0)" by blast
  from th have 3: "lastModified (visits (handleSaveVisit exampleClock ''0.5'' (exampleDraft (Some ''a'')) exampleApp) ! 0) = Some (exampleClock (readingsBefore ''a'' (visits exampleApp) 0))" by blast
  from th have 4: "businessName (visits (handleSaveVisit exampleClock ''0.5'' (exampleDraft (Some ''a'')) exampleApp) ! 0) = d_businessName (exampleDraft (Some ''a''))" by blast
  from th have "\<forall>m < length (visits exampleApp). visit_id (visits exampleApp ! m) \<noteq> ''a'' \<longrightarrow> visits (handleSaveVisit exampleClock ''0.5'' (exampleDraft (Some ''a'')) exampleApp) ! m = visits exampleApp ! m" by blast
  with f have 5: "visits (handleSaveVisit exampleClock ''0.5'' (exampleDraft (Some ''a'')) exampleApp) ! 1 = exampleVisit ''b'' day2" by simp
  from 1 2 3 4 5 d f(4) g h show ?thesis by (simp add: exampleClock_def)
qed

text \<open>
  The ids of a collection are not empty when the collection is built by this handler:
  an edit keeps every id, and a new id ends in the random number.
\<close>

lemma ids_stay_nonempty:
  assumes "\<forall>v\<in>set (visits s). visit_id v \<noteq> []" and "rnd \<noteq> []"
  shows "\<forall>v\<in>set (visits (handleSaveVisit clk rnd d s)). visit_id v \<noteq> []"
proof -
  have edit: "set (map visit_id (mapMatching clk 0 (\<lambda>v. visit_id v = i) (mergeVisit i d) (visits s)))
      = set (map visit_id (visits s))" for i
    by (subst map_id_mapMatching) (simp_all add: mergeVisit_def)
  have new: "visit_id (newVisit (clk 0) rnd (clk 1) d) \<noteq> []"
    using assms(2) by (simp add: newVisit_def)
  have "[] \<notin> set (map visit_id (visits (handleSaveVisit clk rnd d s)))"
  proof (cases "d_id d")
    case None
    then show ?thesis using assms(1) new by (auto simp: handleSaveVisit_def)
  next
    case (Some i)
    show ?thesis
    proof (cases "i = []")
      case True
      then show ?thesis using Some assms(1) new by (auto simp: handleSaveVisit_def)
    next
      case False
      have "[] \<notin> set (map visit_id (visits s))" using assms(1) by auto
      then show ?thesis using Some False edit[of i] by (simp add: handleSaveVisit_def)
    qed
  qed
  then show ?thesis by (metis image_eqI set_map)
qed

subsection \<open>Deleting\<close>

text \<open>
  C8: for every collection and every id, a confirmed delete keeps exactly the records
  whose id differs from the given one, in their order and unchanged; for an id that no
  record carries the collection stays as it is, whatever the answer to the confirmation;
  and deleting the same id a second time changes nothing any more, in the collection or
  in the rest of the state. The handler raises no error.
\<close>

theorem delete_removes_exactly:
  "visits (handleDeleteVisit True i s) = filter (\<lambda>v. visit_id v \<noteq> i) (visits s)
   \<and> (i \<notin> visit_id ` set (visits s) \<longrightarrow> visits (handleDeleteVisit c i s) = visits s)
   \<and> handleDeleteVisit True i (handleDeleteVisit True i s) = handleDeleteVisit True i s"
proof -
  have "i \<notin> visit_id ` set (visits s) \<Longrightarrow> filter (\<lambda>v. visit_id v \<noteq> i) (visits s) = visits s"
    by (rule filter_True) auto
  then show ?thesis
    by (auto simp: handleDeleteVisit_def Let_def)
qed

theorem delete_removes_exactly_witness:
  "visits (handleDeleteVisit True ''a'' exampleApp) = [exampleVisit ''b'' day2]
   \<and> ''zz'' \<notin> visit_id ` set (visits exampleApp)
   \<and> visits (handleDeleteVisit True ''zz'' exampleApp) = visits exampleApp
   \<and> handleDeleteVisit True ''a'' (handleDeleteVisit True ''a'' exampleApp)
       = handleDeleteVisit True ''a'' exampleApp"
proof -
  have a: "''zz'' \<notin> visit_id ` set (visits exampleApp)"
    by (simp add: exampleApp_def initialApp_def exampleVisit_def)
  have b: "filter (\<lambda>v. visit_id v \<noteq> ''a'') (visits exampleApp) = [exampleVisit ''b'' day2]"
    by (simp add: exampleApp_def initialApp_def exampleVisit_def)
  note th = delete_removes_exactly[of "''a''" exampleApp True]
  note th2 = delete_removes_exactly[of "''zz''" exampleApp True]
  from th b have 1: "visits (handleDeleteVisit True ''a'' exampleApp) = [exampleVisit ''b'' day2]"
    by (simp only:)
  from th2 a have 2: "visits (handleDeleteVisit True ''zz'' exampleApp) = visits exampleApp"
    by blast
  from th have 3: "handleDeleteVisit True ''a'' (handleDeleteVisit True ''a'' exampleApp)
       = handleDeleteVisit True ''a'' exampleApp" by blast
  from 1 a 2 3 show ?thesis by blast
qed

subsection \<open>Toggling the revisit flag\<close>

text \<open>
  C9: for every collection and every id, the toggle keeps the length of the collection;
  a record with the id gets \<open>isRevisitSuccessful\<close> set to the negation of its previous
  value, a missing value counting as false, and \<open>lastModified\<close> set to the clock reading
  taken for it, and nothing else of it changes; after a second toggle the flag is the
  original boolean and \<open>lastModified\<close> is the reading of the second clock; the records
  with another id stay as they are; and for an id that no record carries the whole state
  is unchanged.
\<close>

theorem toggle_flips:
  fixes clk clk2 :: "nat \<Rightarrow> string" and i :: string and s :: App
  defines "s1 \<equiv> handleToggleRevisitSuccess clk i s"
  defines "s2 \<equiv> handleToggleRevisitSuccess clk2 i s1"
  shows "length (visits s1) = length (visits s)
    \<and> (\<forall>n < length (visits s).
         if visit_id (visits s ! n) = i then
           visits s1 ! n = (visits s ! n)
             \<lparr>isRevisitSuccessful := Some (isRevisitSuccessful (visits s ! n) \<noteq> Some True),
              lastModified := Some (clk (readingsBefore i (visits s) n))\<rparr>
           \<and> visits s2 ! n = (visits s ! n)
             \<lparr>isRevisitSuccessful := Some (isRevisitSuccessful (visits s ! n) = Some True),
              lastModified := Some (clk2 (readingsBefore i (visits s) n))\<rparr>
         else visits s1 ! n = visits s ! n \<and> visits s2 ! n = visits s ! n)
    \<and> (i \<notin> visit_id ` set (visits s) \<longrightarrow> s1 = s)"
proof -
  have flag: "(\<not> (case x of None \<Rightarrow> False | Some b \<Rightarrow> b)) = (x \<noteq> Some True)" for x :: "bool option"
    by (cases x) auto
  have v1: "visits s1 = mapMatching clk 0 (\<lambda>v. visit_id v = i) toggled (visits s)"
    by (simp add: s1_def handleToggleRevisitSuccess_def)
  have v2: "visits s2 = mapMatching clk2 0 (\<lambda>v. visit_id v = i) toggled (visits s1)"
    by (simp add: s2_def handleToggleRevisitSuccess_def)
  have len1: "length (visits s1) = length (visits s)"
    by (simp add: v1 length_mapMatching)
  have ids: "map visit_id (visits s1) = map visit_id (visits s)"
    unfolding v1 by (rule map_id_mapMatching) (simp add: toggled_def)
  have rb: "readingsBefore i (visits s1) n = readingsBefore i (visits s) n" for n
    by (rule readingsBefore_cong[OF ids])
  have step: "visits s1 ! n =
      (if visit_id (visits s ! n) = i
       then toggled (clk (readingsBefore i (visits s) n)) (visits s ! n) else visits s ! n)"
    if "n < length (visits s)" for n
    using nth_mapMatching[OF that, of clk 0 "\<lambda>v. visit_id v = i" toggled]
    by (simp add: v1 readingsBefore_def)
  have step2: "visits s2 ! n =
      (if visit_id (visits s1 ! n) = i
       then toggled (clk2 (readingsBefore i (visits s) n)) (visits s1 ! n) else visits s1 ! n)"
    if "n < length (visits s)" for n
  proof -
    from that len1 have "n < length (visits s1)" by simp
    from nth_mapMatching[OF this, of clk2 0 "\<lambda>v. visit_id v = i" toggled]
    show ?thesis using rb[of n] by (simp add: v2 readingsBefore_def)
  qed
  have main: "if visit_id (visits s ! n) = i then
           visits s1 ! n = (visits s ! n)
             \<lparr>isRevisitSuccessful := Some (isRevisitSuccessful (visits s ! n) \<noteq> Some True),
              lastModified := Some (clk (readingsBefore i (visits s) n))\<rparr>
           \<and> visits s2 ! n = (visits s ! n)
             \<lparr>isRevisitSuccessful := Some (isRevisitSuccessful (visits s ! n) = Some True),
              lastModified := Some (clk2 (readingsBefore i (visits s) n))\<rparr>
         else visits s1 ! n = visits s ! n \<and> visits s2 ! n = visits s ! n"
    if n: "n < length (visits s)" for n
  proof (cases "visit_id (visits s ! n) = i")
    case True
    have a: "visits s1 ! n = toggled (clk (readingsBefore i (visits s) n)) (visits s ! n)"
      using step[OF n] True by simp
    then have "visit_id (visits s1 ! n) = i" using True by (simp add: toggled_def)
    then have b: "visits s2 ! n = toggled (clk2 (readingsBefore i (visits s) n)) (visits s1 ! n)"
      using step2[OF n] by simp
    show ?thesis using True a b by (simp add: toggled_def flag)
  next
    case False
    then have a: "visits s1 ! n = visits s ! n" using step[OF n] by simp
    then show ?thesis using False step2[OF n] by simp
  qed
  have missing: "s1 = s" if "i \<notin> visit_id ` set (visits s)"
  proof -
    from that have "\<forall>v\<in>set (visits s). \<not> visit_id v = i" by auto
    from mapMatching_none[OF this] show ?thesis
      by (simp add: s1_def handleToggleRevisitSuccess_def)
  qed
  from len1 main missing show ?thesis by blast
qed

theorem toggle_flips_witness:
  "0 < length (visits exampleApp) \<and> visit_id (visits exampleApp ! 0) = ''a''
   \<and> isRevisitSuccessful (visits exampleApp ! 0) = None
   \<and> isRevisitSuccessful (visits (handleToggleRevisitSuccess exampleClock ''a'' exampleApp) ! 0)
       = Some True
   \<and> isRevisitSuccessful
       (visits (handleToggleRevisitSuccess (\<lambda>k. day2) ''a''
          (handleToggleRevisitSuccess exampleClock ''a'' exampleApp)) ! 0) = Some False
   \<and> lastModified
       (visits (handleToggleRevisitSuccess (\<lambda>k. day2) ''a''
          (handleToggleRevisitSuccess exampleClock ''a'' exampleApp)) ! 0) = Some day2"
proof -
  have a: "0 < length (visits exampleApp) \<and> visit_id (visits exampleApp ! 0) = ''a''
      \<and> isRevisitSuccessful (visits exampleApp ! 0) = None"
    by (simp add: exampleApp_def initialApp_def exampleVisit_def)
  from a toggle_flips[of exampleClock "''a''" exampleApp "\<lambda>k. day2",
      THEN conjunct2, THEN conjunct1, rule_format, of 0]
  show ?thesis by (simp add: readingsBefore_def)
qed

section \<open>Filtering and ordering the list\<close>

lemma startsWith_prefix: "startsWith s q = prefix q s"
  by (induction s q rule: startsWith.induct) auto

lemma includesStr_sublist: "includesStr s q = sublist q s"
proof (induction s)
  case Nil
  show ?case by simp
next
  case (Cons a s)
  then show ?case by (simp add: startsWith_prefix sublist_Cons_right)
qed

lemma mset_insertSorted: "mset (insertSorted cmp x xs) = add_mset x (mset xs)"
  by (induction xs) auto

lemma mset_sortWith: "mset (sortWith cmp xs) = mset xs"
  by (induction xs) (auto simp: mset_insertSorted)

lemma set_sortWith: "set (sortWith cmp xs) = set xs"
  by (metis mset_sortWith set_mset_mset)

lemma insertSorted_insort_key:
  "\<forall>y\<in>set ys. notAfter (cmp x y) = (kf x \<le> kf y) \<Longrightarrow>
   insertSorted cmp x ys = insort_key kf x ys"
  by (induction ys) auto

lemma sortWith_sort_key:
  fixes kf :: "'a \<Rightarrow> int"
  assumes "\<forall>x\<in>set xs. \<forall>y\<in>set xs. notAfter (cmp x y) = (kf x \<le> kf y)"
  shows "sortWith cmp xs = sort_key kf xs"
  using assms
proof (induction xs)
  case Nil
  show ?case by simp
next
  case (Cons x xs)
  then have IH: "sortWith cmp xs = sort_key kf xs" by simp
  have "\<forall>y\<in>set (sort_key kf xs). notAfter (cmp x y) = (kf x \<le> kf y)"
    using Cons.prems by simp
  then have "insertSorted cmp x (sort_key kf xs) = insort_key kf x (sort_key kf xs)"
    by (rule insertSorted_insort_key[where cmp = cmp and kf = kf and x = x])
  with IH show ?case by simp
qed

lemma keeps_iff:
  "keeps lower q f v \<longleftrightarrow>
     (visitTypeFilter f = AllTypes \<or> visitTypeFilter f = Only (visitType v))
     \<and> (providers f = [] \<or> currentProvider v \<in> set (providers f))
     \<and> (q = [] \<or> sublist (lower q) (lower (businessName v))
          \<or> sublist (lower q) (lower (contactPerson v))
          \<or> sublist (lower q) (lower (address v)))"
  by (auto simp: keeps_def Let_def includesStr_sublist)

text \<open>
  C2: for every collection, query and filter, a record is in the result of
  \<open>filteredVisits\<close> if and only if it is in the collection, and the type filter is
  \<open>all\<close> or the record's type, and the provider list is empty or has the record's
  provider, and the query is empty or its lower-case form occurs as a contiguous run in
  the lower-case form of the business name, the contact person or the address. The
  result holds records of the collection only, each at most as often as the collection.
\<close>

theorem filter_retains_iff:
  "(v \<in> set (filteredVisits lower getTime vs q f) \<longleftrightarrow>
      v \<in> set vs
      \<and> (visitTypeFilter f = AllTypes \<or> visitTypeFilter f = Only (visitType v))
      \<and> (providers f = [] \<or> currentProvider v \<in> set (providers f))
      \<and> (q = [] \<or> sublist (lower q) (lower (businessName v))
           \<or> sublist (lower q) (lower (contactPerson v))
           \<or> sublist (lower q) (lower (address v))))
   \<and> set (filteredVisits lower getTime vs q f) \<subseteq> set vs
   \<and> mset (filteredVisits lower getTime vs q f) \<subseteq># mset vs"
proof -
  have m: "mset (filteredVisits lower getTime vs q f) = filter_mset (keeps lower q f) (mset vs)"
    by (simp add: filteredVisits_def mset_sortWith)
  have s: "set (filteredVisits lower getTime vs q f) = {v \<in> set vs. keeps lower q f v}"
    by (simp add: filteredVisits_def set_sortWith)
  have "mset (filteredVisits lower getTime vs q f) \<subseteq># mset vs"
    unfolding m by (rule multiset_filter_subset)
  moreover have "set (filteredVisits lower getTime vs q f) \<subseteq> set vs"
    unfolding s by blast
  moreover have "v \<in> set (filteredVisits lower getTime vs q f) \<longleftrightarrow>
      v \<in> set vs
      \<and> (visitTypeFilter f = AllTypes \<or> visitTypeFilter f = Only (visitType v))
      \<and> (providers f = [] \<or> currentProvider v \<in> set (providers f))
      \<and> (q = [] \<or> sublist (lower q) (lower (businessName v))
           \<or> sublist (lower q) (lower (contactPerson v))
           \<or> sublist (lower q) (lower (address v)))"
    unfolding s using keeps_iff[of lower q f v] by blast
  ultimately show ?thesis by blast
qed


theorem filter_retains_iff_witness:
  "exampleVisit ''a'' day1 \<in> set (visits exampleApp)
   \<and> visitTypeFilter initialFilters = AllTypes \<and> providers initialFilters = []
   \<and> includesStr (asciiLower (businessName (exampleVisit ''a'' day1))) (asciiLower ''ACME'')
   \<and> exampleVisit ''a'' day1
        \<in> set (filteredVisits asciiLower exampleGetTime (visits exampleApp) ''ACME'' initialFilters)
   \<and> exampleVisit ''a'' day1
        \<notin> set (filteredVisits asciiLower exampleGetTime (visits exampleApp) ''ACME''
                 (initialFilters\<lparr>visitTypeFilter := Only FollowUp\<rparr>))"
proof -
  have a: "exampleVisit ''a'' day1 \<in> set (visits exampleApp)"
    by (simp add: exampleApp_def initialApp_def)
  have b: "visitTypeFilter initialFilters = AllTypes" "providers initialFilters = []"
    by (simp_all add: initialFilters_def)
  have c: "includesStr (asciiLower (businessName (exampleVisit ''a'' day1))) (asciiLower ''ACME'')"
    by (simp add: exampleVisit_def asciiLower_def)
  then have c': "sublist (asciiLower ''ACME'') (asciiLower (businessName (exampleVisit ''a'' day1)))"
    by (simp only: includesStr_sublist)
  have d: "visitTypeFilter (initialFilters\<lparr>visitTypeFilter := Only FollowUp\<rparr>) \<noteq> AllTypes"
     "visitTypeFilter (initialFilters\<lparr>visitTypeFilter := Only FollowUp\<rparr>)
        \<noteq> Only (visitType (exampleVisit ''a'' day1))"
    by (simp_all add: exampleVisit_def)
  from filter_retains_iff[of "exampleVisit ''a'' day1" asciiLower exampleGetTime
      "visits exampleApp" "''ACME''" initialFilters] a b c'
  have 1: "exampleVisit ''a'' day1
        \<in> set (filteredVisits asciiLower exampleGetTime (visits exampleApp) ''ACME'' initialFilters)"
    by blast
  from filter_retains_iff[of "exampleVisit ''a'' day1" asciiLower exampleGetTime
      "visits exampleApp" "''ACME''" "initialFilters\<lparr>visitTypeFilter := Only FollowUp\<rparr>"] d
  have 2: "exampleVisit ''a'' day1
        \<notin> set (filteredVisits asciiLower exampleGetTime (visits exampleApp) ''ACME''
                 (initialFilters\<lparr>visitTypeFilter := Only FollowUp\<rparr>))"
    by blast
  from a b c 1 2 show ?thesis by blast
qed

lemma sorted_wrt_mono_set:
  "sorted_wrt P xs \<Longrightarrow> (\<And>a b. a \<in> set xs \<Longrightarrow> b \<in> set xs \<Longrightarrow> P a b \<Longrightarrow> Q a b) \<Longrightarrow> sorted_wrt Q xs"
  by (induction xs) auto

lemma sortWith_by_key:
  fixes kf :: "'a \<Rightarrow> int" and key :: "'a \<Rightarrow> int option"
  assumes cmp: "\<forall>x\<in>set xs. \<forall>y\<in>set xs. notAfter (cmp x y) = (kf x \<le> kf y)"
    and inj: "\<forall>x\<in>set xs. \<forall>y\<in>set xs. (kf x = kf y) = (key x = key y)"
  shows "sorted_wrt (\<lambda>a b. kf a \<le> kf b) (sortWith cmp xs)"
    and "filter (\<lambda>v. key v = k) (sortWith cmp xs) = filter (\<lambda>v. key v = k) xs"
proof -
  have eq: "sortWith cmp xs = sort_key kf xs" by (rule sortWith_sort_key[OF cmp])
  have "sorted (map kf (sort_key kf xs))" by (rule sorted_sort_key)
  then show "sorted_wrt (\<lambda>a b. kf a \<le> kf b) (sortWith cmp xs)"
    by (simp add: eq sorted_map)
  show "filter (\<lambda>v. key v = k) (sortWith cmp xs) = filter (\<lambda>v. key v = k) xs"
  proof (cases "\<exists>w\<in>set xs. key w = k")
    case True
    then obtain w where w: "w \<in> set xs" "key w = k" by blast
    have a: "filter (\<lambda>v. key v = k) (sort_key kf xs) = filter (\<lambda>v. kf v = kf w) (sort_key kf xs)"
      by (rule filter_cong) (use inj w in auto)
    have b: "filter (\<lambda>v. key v = k) xs = filter (\<lambda>v. kf v = kf w) xs"
      by (rule filter_cong) (use inj w in auto)
    show ?thesis unfolding eq a b by (rule sort_key_stable)
  next
    case False
    then have "filter (\<lambda>v. key v = k) xs = []" by (simp add: filter_empty_conv)
    moreover from False have "filter (\<lambda>v. key v = k) (sort_key kf xs) = []"
      by (simp add: filter_empty_conv)
    ultimately show ?thesis by (simp add: eq)
  qed
qed


lemma validDates_key:
  assumes "validDates getTime v"
  shows "lastModifiedOrTimestamp v = modifiedKey v"
    and "\<exists>x. getTime (timestamp v) = Some x"
    and "\<exists>x. getTime (modifiedKey v) = Some x"
  using assms
  by (auto simp: validDates_def lastModifiedOrTimestamp_def modifiedKey_def split: option.splits)

text \<open>
  C3: for every collection whose retained records have well-formed dates, and every
  query and filter, the result is a rearrangement of the retained records; with
  \<open>newest\<close> no record is followed by one with a later time stamp, with \<open>oldest\<close> none
  is followed by one with an earlier time stamp, with \<open>lastModified\<close> none is followed by
  one whose key (\<open>lastModified\<close> when present, else the time stamp) is later; and in each
  case the records with one and the same key stand in the order they have in the
  collection.
\<close>

theorem sort_order:
  fixes lower :: "string \<Rightarrow> string" and getTime :: "string \<Rightarrow> int option"
    and vs :: "Visit list" and q :: string and f :: Filters
  defines "kept \<equiv> filter (keeps lower q f) vs"
  defines "out \<equiv> filteredVisits lower getTime vs q f"
  assumes valid: "\<forall>v\<in>set kept. validDates getTime v"
  shows "mset out = mset kept
    \<and> (sortBy f = Newest \<longrightarrow>
         sorted_wrt (\<lambda>a b. \<exists>x y. getTime (timestamp a) = Some x \<and> getTime (timestamp b) = Some y \<and> y \<le> x) out
         \<and> (\<forall>k. filter (\<lambda>v. getTime (timestamp v) = k) out = filter (\<lambda>v. getTime (timestamp v) = k) kept))
    \<and> (sortBy f = Oldest \<longrightarrow>
         sorted_wrt (\<lambda>a b. \<exists>x y. getTime (timestamp a) = Some x \<and> getTime (timestamp b) = Some y \<and> x \<le> y) out
         \<and> (\<forall>k. filter (\<lambda>v. getTime (timestamp v) = k) out = filter (\<lambda>v. getTime (timestamp v) = k) kept))
    \<and> (sortBy f = LastModified \<longrightarrow>
         sorted_wrt (\<lambda>a b. \<exists>x y. getTime (modifiedKey a) = Some x \<and> getTime (modifiedKey b) = Some y \<and> y \<le> x) out
         \<and> (\<forall>k. filter (\<lambda>v. getTime (modifiedKey v) = k) out = filter (\<lambda>v. getTime (modifiedKey v) = k) kept))"
proof -
  let ?cmp = "compareVisits getTime f"
  have out: "out = sortWith ?cmp kept"
    by (simp add: out_def kept_def filteredVisits_def)
  have setout: "set out = set kept" by (simp add: out set_sortWith)
  have ts: "\<exists>x. getTime (timestamp v) = Some x" if "v \<in> set kept" for v
    using validDates_key(2) valid that by blast
  have mk: "\<exists>x. getTime (modifiedKey v) = Some x" if "v \<in> set kept" for v
    using validDates_key(3) valid that by blast
  have lm: "lastModifiedOrTimestamp v = modifiedKey v" if "v \<in> set kept" for v
    using validDates_key(1) valid that by blast
  have perm: "mset out = mset kept" by (simp add: out mset_sortWith)
  have newest: "sorted_wrt (\<lambda>a b. \<exists>x y. getTime (timestamp a) = Some x \<and> getTime (timestamp b) = Some y \<and> y \<le> x) out
      \<and> (\<forall>k. filter (\<lambda>v. getTime (timestamp v) = k) out = filter (\<lambda>v. getTime (timestamp v) = k) kept)"
    if sb: "sortBy f = Newest"
  proof -
    let ?kf = "\<lambda>v. - the (getTime (timestamp v))"
    let ?key = "\<lambda>v. getTime (timestamp v)"
    have c: "\<forall>x\<in>set kept. \<forall>y\<in>set kept. notAfter (?cmp x y) = (?kf x \<le> ?kf y)"
    proof (intro ballI)
      fix x y assume "x \<in> set kept" "y \<in> set kept"
      with ts obtain a b where "getTime (timestamp x) = Some a" "getTime (timestamp y) = Some b"
        by blast
      then show "notAfter (?cmp x y) = (?kf x \<le> ?kf y)"
        using sb by (simp add: compareVisits_def minusTime_def notAfter_def Let_def)
    qed
    have i: "\<forall>x\<in>set kept. \<forall>y\<in>set kept. (?kf x = ?kf y) = (?key x = ?key y)"
    proof (intro ballI)
      fix x y assume "x \<in> set kept" "y \<in> set kept"
      with ts obtain a b where "getTime (timestamp x) = Some a" "getTime (timestamp y) = Some b"
        by blast
      then show "(?kf x = ?kf y) = (?key x = ?key y)" by simp
    qed
    have "sorted_wrt (\<lambda>a b. ?kf a \<le> ?kf b) out"
      unfolding out by (rule sortWith_by_key(1)[OF c i])
    then have "sorted_wrt (\<lambda>a b. \<exists>x y. getTime (timestamp a) = Some x \<and> getTime (timestamp b) = Some y \<and> y \<le> x) out"
    proof (rule sorted_wrt_mono_set)
      fix a b assume "a \<in> set out" "b \<in> set out" and le: "?kf a \<le> ?kf b"
      with setout ts obtain x y where "getTime (timestamp a) = Some x" "getTime (timestamp b) = Some y"
        by blast
      with le show "\<exists>x y. getTime (timestamp a) = Some x \<and> getTime (timestamp b) = Some y \<and> y \<le> x"
        by simp
    qed
    moreover have "filter (\<lambda>v. ?key v = k) out = filter (\<lambda>v. ?key v = k) kept" for k
      unfolding out by (rule sortWith_by_key(2)[OF c i])
    ultimately show ?thesis by blast
  qed
  have oldest: "sorted_wrt (\<lambda>a b. \<exists>x y. getTime (timestamp a) = Some x \<and> getTime (timestamp b) = Some y \<and> x \<le> y) out
      \<and> (\<forall>k. filter (\<lambda>v. getTime (timestamp v) = k) out = filter (\<lambda>v. getTime (timestamp v) = k) kept)"
    if sb: "sortBy f = Oldest"
  proof -
    let ?kf = "\<lambda>v. the (getTime (timestamp v))"
    let ?key = "\<lambda>v. getTime (timestamp v)"
    have c: "\<forall>x\<in>set kept. \<forall>y\<in>set kept. notAfter (?cmp x y) = (?kf x \<le> ?kf y)"
    proof (intro ballI)
      fix x y assume "x \<in> set kept" "y \<in> set kept"
      with ts obtain a b where "getTime (timestamp x) = Some a" "getTime (timestamp y) = Some b"
        by blast
      then show "notAfter (?cmp x y) = (?kf x \<le> ?kf y)"
        using sb by (simp add: compareVisits_def minusTime_def notAfter_def Let_def)
    qed
    have i: "\<forall>x\<in>set kept. \<forall>y\<in>set kept. (?kf x = ?kf y) = (?key x = ?key y)"
    proof (intro ballI)
      fix x y assume "x \<in> set kept" "y \<in> set kept"
      with ts obtain a b where "getTime (timestamp x) = Some a" "getTime (timestamp y) = Some b"
        by blast
      then show "(?kf x = ?kf y) = (?key x = ?key y)" by simp
    qed
    have "sorted_wrt (\<lambda>a b. ?kf a \<le> ?kf b) out"
      unfolding out by (rule sortWith_by_key(1)[OF c i])
    then have "sorted_wrt (\<lambda>a b. \<exists>x y. getTime (timestamp a) = Some x \<and> getTime (timestamp b) = Some y \<and> x \<le> y) out"
    proof (rule sorted_wrt_mono_set)
      fix a b assume "a \<in> set out" "b \<in> set out" and le: "?kf a \<le> ?kf b"
      with setout ts obtain x y where "getTime (timestamp a) = Some x" "getTime (timestamp b) = Some y"
        by blast
      with le show "\<exists>x y. getTime (timestamp a) = Some x \<and> getTime (timestamp b) = Some y \<and> x \<le> y"
        by simp
    qed
    moreover have "filter (\<lambda>v. ?key v = k) out = filter (\<lambda>v. ?key v = k) kept" for k
      unfolding out by (rule sortWith_by_key(2)[OF c i])
    ultimately show ?thesis by blast
  qed
  have modified: "sorted_wrt (\<lambda>a b. \<exists>x y. getTime (modifiedKey a) = Some x \<and> getTime (modifiedKey b) = Some y \<and> y \<le> x) out
      \<and> (\<forall>k. filter (\<lambda>v. getTime (modifiedKey v) = k) out = filter (\<lambda>v. getTime (modifiedKey v) = k) kept)"
    if sb: "sortBy f = LastModified"
  proof -
    let ?kf = "\<lambda>v. - the (getTime (modifiedKey v))"
    let ?key = "\<lambda>v. getTime (modifiedKey v)"
    have c: "\<forall>x\<in>set kept. \<forall>y\<in>set kept. notAfter (?cmp x y) = (?kf x \<le> ?kf y)"
    proof (intro ballI)
      fix x y assume xy: "x \<in> set kept" "y \<in> set kept"
      with mk obtain a b where "getTime (modifiedKey x) = Some a" "getTime (modifiedKey y) = Some b"
        by blast
      then show "notAfter (?cmp x y) = (?kf x \<le> ?kf y)"
        using sb lm[OF xy(1)] lm[OF xy(2)]
        by (simp add: compareVisits_def minusTime_def notAfter_def Let_def)
    qed
    have i: "\<forall>x\<in>set kept. \<forall>y\<in>set kept. (?kf x = ?kf y) = (?key x = ?key y)"
    proof (intro ballI)
      fix x y assume "x \<in> set kept" "y \<in> set kept"
      with mk obtain a b where "getTime (modifiedKey x) = Some a" "getTime (modifiedKey y) = Some b"
        by blast
      then show "(?kf x = ?kf y) = (?key x = ?key y)" by simp
    qed
    have "sorted_wrt (\<lambda>a b. ?kf a \<le> ?kf b) out"
      unfolding out by (rule sortWith_by_key(1)[OF c i])
    then have "sorted_wrt (\<lambda>a b. \<exists>x y. getTime (modifiedKey a) = Some x \<and> getTime (modifiedKey b) = Some y \<and> y \<le> x) out"
    proof (rule sorted_wrt_mono_set)
      fix a b assume "a \<in> set out" "b \<in> set out" and le: "?kf a \<le> ?kf b"
      with setout mk obtain x y where "getTime (modifiedKey a) = Some x" "getTime (modifiedKey b) = Some y"
        by blast
      with le show "\<exists>x y. getTime (modifiedKey a) = Some x \<and> getTime (modifiedKey b) = Some y \<and> y \<le> x"
        by simp
    qed
    moreover have "filter (\<lambda>v. ?key v = k) out = filter (\<lambda>v. ?key v = k) kept" for k
      unfolding out by (rule sortWith_by_key(2)[OF c i])
    ultimately show ?thesis by blast
  qed
  from perm newest oldest modified show ?thesis by blast
qed


lemma example_kept:
  "filter (keeps asciiLower [] f) (visits exampleApp) = visits exampleApp"
  if "visitTypeFilter f = AllTypes" "providers f = []"
  using that by (simp add: keeps_def exampleApp_def initialApp_def)

theorem sort_order_witness:
  "validDates exampleGetTime (exampleVisit ''a'' day1)
   \<and> validDates exampleGetTime (exampleVisit ''b'' day2)
   \<and> sortBy initialFilters = Newest
   \<and> sorted_wrt (\<lambda>a b. \<exists>x y. exampleGetTime (timestamp a) = Some x
                          \<and> exampleGetTime (timestamp b) = Some y \<and> y \<le> x)
        (filteredVisits asciiLower exampleGetTime (visits exampleApp) [] initialFilters)
   \<and> filteredVisits asciiLower exampleGetTime (visits exampleApp) [] initialFilters
        = [exampleVisit ''b'' day2, exampleVisit ''a'' day1]
   \<and> filteredVisits asciiLower exampleGetTime (visits exampleApp) [] (initialFilters\<lparr>sortBy := Oldest\<rparr>)
        = [exampleVisit ''a'' day1, exampleVisit ''b'' day2]"
proof -
  have va: "validDates exampleGetTime (exampleVisit ''a'' day1)"
    by (simp add: validDates_def exampleVisit_def exampleGetTime_def)
  have vb: "validDates exampleGetTime (exampleVisit ''b'' day2)"
    by (simp add: validDates_def exampleVisit_def exampleGetTime_def)
  have k: "filter (keeps asciiLower [] initialFilters) (visits exampleApp) = visits exampleApp"
    by (rule example_kept) (simp_all add: initialFilters_def)
  have v: "\<forall>v\<in>set (filter (keeps asciiLower [] initialFilters) (visits exampleApp)).
             validDates exampleGetTime v"
    unfolding k using va vb by (simp add: exampleApp_def initialApp_def)
  have n: "sortBy initialFilters = Newest" by (simp add: initialFilters_def)
  from sort_order[OF v] n
  have 1: "sorted_wrt (\<lambda>a b. \<exists>x y. exampleGetTime (timestamp a) = Some x
                          \<and> exampleGetTime (timestamp b) = Some y \<and> y \<le> x)
        (filteredVisits asciiLower exampleGetTime (visits exampleApp) [] initialFilters)"
    by blast
  have t: "exampleGetTime day1 = Some 1704067200000" "exampleGetTime day2 = Some 1704153600000"
    by (simp_all add: exampleGetTime_def day1_def day2_def)
  have 2: "filteredVisits asciiLower exampleGetTime (visits exampleApp) [] initialFilters
        = [exampleVisit ''b'' day2, exampleVisit ''a'' day1]"
    unfolding filteredVisits_def k
    by (simp add: exampleApp_def initialApp_def compareVisits_def n t exampleVisit_def
        minusTime_def notAfter_def)
  have k': "filter (keeps asciiLower [] (initialFilters\<lparr>sortBy := Oldest\<rparr>)) (visits exampleApp)
      = visits exampleApp"
    by (rule example_kept) (simp_all add: initialFilters_def)
  have 3: "filteredVisits asciiLower exampleGetTime (visits exampleApp) [] (initialFilters\<lparr>sortBy := Oldest\<rparr>)
        = [exampleVisit ''a'' day1, exampleVisit ''b'' day2]"
    unfolding filteredVisits_def k'
    by (simp add: exampleApp_def initialApp_def compareVisits_def t exampleVisit_def
        minusTime_def notAfter_def)
  from va vb n 1 2 3 show ?thesis by blast
qed

section \<open>Creating a visit\<close>

text \<open>
  C5 fails on the code in one point. The id of a new record is the clock string followed
  by the random number, and nothing compares it with the ids in the collection: when a
  record already carries that string, the new record gets an id that is not unique.
\<close>

theorem create_fresh_id_counterexample:
  "distinct (map visit_id (visits collidingApp))
   \<and> map_sum (\<lambda>e. e) (\<lambda>s. map visit_id (visits s))
        (submitForm (\<lambda>x. NaN) (\<lambda>x. x) Some exampleClock ''0.5'' (exampleForm ''Acme Ltd'') collidingApp)
       = Inr [day3 @ ''0.5'', day3 @ ''0.5'']"
  by (simp add: collidingApp_def initialApp_def submitForm_def handleSubmit_def exampleForm_def
      handleSaveVisit_def newVisit_def exampleClock_def exampleVisit_def)

text \<open>
  C5 (amended): in create mode, submitting the form is rejected with the notice that the
  business name is required exactly when the business name is empty, and the state is
  then left as it is. When the name is not empty (and the revisit date, if given, is a
  date), the submission succeeds: the new record is put in front of the collection and
  the list view is shown; its id is the clock string followed by the random number, and
  is not empty; its time stamp is the next clock reading; it has no \<open>lastModified\<close>; its
  other fields are those of the form, an empty number field giving no number; looking up
  its id in the new collection finds it; and the ids stay pairwise different whenever
  they were so before and no record already carries the new id.
\<close>

theorem create_visit:
  fixes parseFloat :: "string \<Rightarrow> number" and trim :: "string \<Rightarrow> string"
    and toISO :: "string \<Rightarrow> string option" and clk :: "nat \<Rightarrow> string" and rnd :: string
    and fd :: FormData and s :: App
  defines "r \<equiv> submitForm parseFloat trim toISO clk rnd fd s"
  assumes create: "\<not> isEditing s"
  shows "(r = Inl BusinessNameRequired \<longleftrightarrow> fd_businessName fd = [])
    \<and> (fd_businessName fd \<noteq> [] \<and> (fd_revisitDate fd = [] \<or> toISO (fd_revisitDate fd) \<noteq> None) \<longrightarrow>
        (\<exists>v s'. r = Inr s' \<and> visits s' = v # visits s \<and> view s' = ListView
           \<and> visit_id v = clk 0 @ rnd \<and> (rnd \<noteq> [] \<longrightarrow> visit_id v \<noteq> [])
           \<and> timestamp v = clk 1 \<and> lastModified v = None
           \<and> businessName v = fd_businessName fd \<and> contactPerson v = fd_contactPerson fd
           \<and> ownerName v = fd_ownerName fd \<and> ownerContact v = Some (fd_ownerContact fd)
           \<and> numberOfPhones v =
               (if trim (fd_numberOfPhones fd) = [] then None
                else Some (parseFloat (fd_numberOfPhones fd)))
           \<and> estimatedMonthlyPayment v =
               (if trim (fd_estimatedMonthlyPayment fd) = [] then None
                else Some (parseFloat (fd_estimatedMonthlyPayment fd)))
           \<and> currentProvider v = fd_currentProvider fd \<and> address v = fd_address fd
           \<and> visit_notes v = fd_notes fd \<and> visitType v = fd_visitType fd
           \<and> revisitDate v = (if fd_revisitDate fd = [] then None else toISO (fd_revisitDate fd))
           \<and> isRevisitSuccessful v = None
           \<and> find (\<lambda>w. visit_id w = visit_id v) (visits s') = Some v
           \<and> (distinct (map visit_id (visits s)) \<and> clk 0 @ rnd \<notin> visit_id ` set (visits s)
                \<longrightarrow> distinct (map visit_id (visits s')))))"
proof -
  have first: "(r = Inl BusinessNameRequired) = (fd_businessName fd = [])"
    using create by (simp add: r_def submitForm_def handleSubmit_def)
  have second: "\<exists>v s'. r = Inr s' \<and> visits s' = v # visits s \<and> view s' = ListView
           \<and> visit_id v = clk 0 @ rnd \<and> (rnd \<noteq> [] \<longrightarrow> visit_id v \<noteq> [])
           \<and> timestamp v = clk 1 \<and> lastModified v = None
           \<and> businessName v = fd_businessName fd \<and> contactPerson v = fd_contactPerson fd
           \<and> ownerName v = fd_ownerName fd \<and> ownerContact v = Some (fd_ownerContact fd)
           \<and> numberOfPhones v =
               (if trim (fd_numberOfPhones fd) = [] then None
                else Some (parseFloat (fd_numberOfPhones fd)))
           \<and> estimatedMonthlyPayment v =
               (if trim (fd_estimatedMonthlyPayment fd) = [] then None
                else Some (parseFloat (fd_estimatedMonthlyPayment fd)))
           \<and> currentProvider v = fd_currentProvider fd \<and> address v = fd_address fd
           \<and> visit_notes v = fd_notes fd \<and> visitType v = fd_visitType fd
           \<and> revisitDate v = (if fd_revisitDate fd = [] then None else toISO (fd_revisitDate fd))
           \<and> isRevisitSuccessful v = None
           \<and> find (\<lambda>w. visit_id w = visit_id v) (visits s') = Some v
           \<and> (distinct (map visit_id (visits s)) \<and> clk 0 @ rnd \<notin> visit_id ` set (visits s)
                \<longrightarrow> distinct (map visit_id (visits s')))"
    if ok: "fd_businessName fd \<noteq> []" "fd_revisitDate fd = [] \<or> toISO (fd_revisitDate fd) \<noteq> None"
  proof -
    obtain d where d: "handleSubmit parseFloat trim toISO None fd = Inr d" and id: "d_id d = None"
      using ok by (auto simp: handleSubmit_def)
    let ?v = "newVisit (clk 0) rnd (clk 1) d"
    let ?s' = "handleSaveVisit clk rnd d s"
    have r: "r = Inr ?s'" using create d by (simp add: r_def submitForm_def)
    have vs: "visits ?s' = ?v # visits s" and vw: "view ?s' = ListView"
      using id by (simp_all add: handleSaveVisit_def)
    have dd: "d =
        \<lparr>d_id = None,
         d_businessName = fd_businessName fd,
         d_contactPerson = fd_contactPerson fd,
         d_ownerName = fd_ownerName fd,
         d_ownerContact = Given (Some (fd_ownerContact fd)),
         d_numberOfPhones =
           (if trim (fd_numberOfPhones fd) = [] then None
            else Some (parseFloat (fd_numberOfPhones fd))),
         d_estimatedMonthlyPayment =
           (if trim (fd_estimatedMonthlyPayment fd) = [] then None
            else Some (parseFloat (fd_estimatedMonthlyPayment fd))),
         d_currentProvider = fd_currentProvider fd,
         d_address = fd_address fd,
         d_notes = fd_notes fd,
         d_visitType = fd_visitType fd,
         d_revisitDate =
           Given (if fd_revisitDate fd \<noteq> [] then toISO (fd_revisitDate fd) else None),
         d_isRevisitSuccessful = Omitted\<rparr>"
      using d ok by (simp add: handleSubmit_def split: if_splits)
    have fields: "visit_id ?v = clk 0 @ rnd \<and> (rnd \<noteq> [] \<longrightarrow> visit_id ?v \<noteq> [])
           \<and> timestamp ?v = clk 1 \<and> lastModified ?v = None
           \<and> businessName ?v = fd_businessName fd \<and> contactPerson ?v = fd_contactPerson fd
           \<and> ownerName ?v = fd_ownerName fd \<and> ownerContact ?v = Some (fd_ownerContact fd)
           \<and> numberOfPhones ?v =
               (if trim (fd_numberOfPhones fd) = [] then None
                else Some (parseFloat (fd_numberOfPhones fd)))
           \<and> estimatedMonthlyPayment ?v =
               (if trim (fd_estimatedMonthlyPayment fd) = [] then None
                else Some (parseFloat (fd_estimatedMonthlyPayment fd)))
           \<and> currentProvider ?v = fd_currentProvider fd \<and> address ?v = fd_address fd
           \<and> visit_notes ?v = fd_notes fd \<and> visitType ?v = fd_visitType fd
           \<and> revisitDate ?v = (if fd_revisitDate fd = [] then None else toISO (fd_revisitDate fd))
           \<and> isRevisitSuccessful ?v = None"
      by (subst (1 2 3 4 5 6 7 8 9 10 11 12 13 14 15 16) dd) (simp add: newVisit_def)
    have found: "find (\<lambda>w. visit_id w = visit_id ?v) (visits ?s') = Some ?v"
      by (simp add: vs)
    have dist: "distinct (map visit_id (visits s)) \<and> clk 0 @ rnd \<notin> visit_id ` set (visits s)
                \<longrightarrow> distinct (map visit_id (visits ?s'))"
      by (simp add: vs newVisit_def)
    from r vs vw fields found dist show ?thesis by blast
  qed
  from first second show ?thesis by blast
qed

theorem create_visit_witness:
  "\<not> isEditing exampleApp
   \<and> submitForm (\<lambda>x. NaN) (\<lambda>x. x) Some exampleClock ''0.5'' (exampleForm []) exampleApp
       = Inl BusinessNameRequired
   \<and> (\<exists>v s'. submitForm (\<lambda>x. NaN) (\<lambda>x. x) Some exampleClock ''0.5'' (exampleForm ''Acme Ltd'') exampleApp
                = Inr s'
         \<and> visits s' = v # visits exampleApp \<and> visit_id v = day3 @ ''0.5''
         \<and> timestamp v = day3 \<and> lastModified v = None \<and> businessName v = ''Acme Ltd''
         \<and> find (\<lambda>w. visit_id w = visit_id v) (visits s') = Some v
         \<and> distinct (map visit_id (visits s')))"
proof -
  have a: "\<not> isEditing exampleApp" by (simp add: exampleApp_def initialApp_def)
  have b: "fd_businessName (exampleForm []) = []" by (simp add: exampleForm_def)
  have c: "fd_businessName (exampleForm ''Acme Ltd'') \<noteq> []
      \<and> (fd_revisitDate (exampleForm ''Acme Ltd'') = []
          \<or> Some (fd_revisitDate (exampleForm ''Acme Ltd'')) \<noteq> None)"
    by (simp add: exampleForm_def)
  have d: "distinct (map visit_id (visits exampleApp))
      \<and> exampleClock 0 @ ''0.5'' \<notin> visit_id ` set (visits exampleApp)"
    by (simp add: exampleApp_def initialApp_def exampleVisit_def exampleClock_def day3_def)
  have e: "exampleClock 0 = day3" "exampleClock 1 = day3"
      "fd_businessName (exampleForm ''Acme Ltd'') = ''Acme Ltd''"
    by (simp_all add: exampleClock_def exampleForm_def)
  from create_visit[OF a, of "\<lambda>x. NaN" "\<lambda>x. x" Some exampleClock "''0.5''" "exampleForm []"] b
  have 1: "submitForm (\<lambda>x. NaN) (\<lambda>x. x) Some exampleClock ''0.5'' (exampleForm []) exampleApp
       = Inl BusinessNameRequired"
    by blast
  from create_visit[OF a, of "\<lambda>x. NaN" "\<lambda>x. x" Some exampleClock "''0.5''" "exampleForm ''Acme Ltd''",
      THEN conjunct2, rule_format, OF c]
  obtain v s' where
    "submitForm (\<lambda>x. NaN) (\<lambda>x. x) Some exampleClock ''0.5'' (exampleForm ''Acme Ltd'') exampleApp = Inr s'"
    "visits s' = v # visits exampleApp" "visit_id v = exampleClock 0 @ ''0.5''"
    "timestamp v = exampleClock 1" "lastModified v = None"
    "businessName v = fd_businessName (exampleForm ''Acme Ltd'')"
    "find (\<lambda>w. visit_id w = visit_id v) (visits s') = Some v"
    "distinct (map visit_id (visits exampleApp))
       \<and> exampleClock 0 @ ''0.5'' \<notin> visit_id ` set (visits exampleApp)
     \<longrightarrow> distinct (map visit_id (visits s'))"
    by blast
  with d e have "submitForm (\<lambda>x. NaN) (\<lambda>x. x) Some exampleClock ''0.5'' (exampleForm ''Acme Ltd'') exampleApp
                = Inr s'
         \<and> visits s' = v # visits exampleApp \<and> visit_id v = day3 @ ''0.5''
         \<and> timestamp v = day3 \<and> lastModified v = None \<and> businessName v = ''Acme Ltd''
         \<and> find (\<lambda>w. visit_id w = visit_id v) (visits s') = Some v
         \<and> distinct (map visit_id (visits s'))"
    by simp
  then have 2: "\<exists>v s'. submitForm (\<lambda>x. NaN) (\<lambda>x. x) Some exampleClock ''0.5'' (exampleForm ''Acme Ltd'') exampleApp
                = Inr s'
         \<and> visits s' = v # visits exampleApp \<and> visit_id v = day3 @ ''0.5''
         \<and> timestamp v = day3 \<and> lastModified v = None \<and> businessName v = ''Acme Ltd''
         \<and> find (\<lambda>w. visit_id w = visit_id v) (visits s') = Some v
         \<and> distinct (map visit_id (visits s'))"
    by blast
  from a 1 2 show ?thesis by blast
qed

section \<open>The selected record is gone\<close>

lemma find_missing: "i \<notin> visit_id ` set vs \<Longrightarrow> find (\<lambda>v. visit_id v = i) vs = None"
  by (induction vs) auto

text \<open>
  C4 fails on the code. Both states below are reached by a handler followed by a
  replacement of the collection, and in both the selected id is the id of no record. In
  the detail view nothing is rendered, and in the form view the form is rendered; the
  list is rendered in neither.
\<close>

theorem missing_record_counterexample:
  "reachable staleDetail
   \<and> view staleDetail = DetailView \<and> selectedVisitId staleDetail = Some ''a''
   \<and> ''a'' \<notin> set (map visit_id (visits staleDetail))
   \<and> renderContent staleDetail = Nothing
   \<and> reachable staleForm
   \<and> view staleForm = FormView \<and> isEditing staleForm \<and> selectedVisitId staleForm = Some ''a''
   \<and> ''a'' \<notin> set (map visit_id (visits staleForm))
   \<and> renderContent staleForm = RenderForm None"
proof -
  have "reachable exampleApp" unfolding exampleApp_def by (rule reachable.start)
  then have r1: "reachable staleDetail" and r2: "reachable staleForm"
    unfolding staleDetail_def staleForm_def
    by (intro reachable.setVisits reachable.selectVisit reachable.editVisitFromList; assumption)+
  have d: "view staleDetail = DetailView \<and> selectedVisitId staleDetail = Some ''a''
      \<and> ''a'' \<notin> set (map visit_id (visits staleDetail)) \<and> renderContent staleDetail = Nothing"
    by (simp add: staleDetail_def handleSelectVisit_def renderContent_def selectedVisit_def
        exampleVisit_def)
  have f: "view staleForm = FormView \<and> isEditing staleForm \<and> selectedVisitId staleForm = Some ''a''
      \<and> ''a'' \<notin> set (map visit_id (visits staleForm)) \<and> renderContent staleForm = RenderForm None"
    by (simp add: staleForm_def handleEditVisitFromList_def renderContent_def selectedVisit_def
        exampleVisit_def)
  from r1 r2 d f show ?thesis by blast
qed

text \<open>
  C4 (amended): in every state in which a record is selected and no record of the
  collection has the selected id, no record is rendered in place of the missing one and
  the view is not changed: the detail view renders no component, the form view renders
  the form without an initial visit, the list view renders the list. From the form view,
  going back leads to the list view, and the edit handler does nothing.
\<close>

theorem missing_record_not_rendered:
  assumes "selectedVisitId s = Some i" and "i \<notin> visit_id ` set (visits s)"
  shows "renderContent s =
      (case view s of
         DetailView \<Rightarrow> Nothing
       | FormView \<Rightarrow> RenderForm None
       | ListView \<Rightarrow> RenderList (visits s))
    \<and> (view s = FormView \<longrightarrow> view (handleGoBack s) = ListView)
    \<and> handleEditVisit s = s"
proof -
  have sel: "selectedVisit s = None"
    using assms find_missing[OF assms(2)] by (simp add: selectedVisit_def)
  show ?thesis
    using sel by (cases "view s") (auto simp: renderContent_def handleGoBack_def handleEditVisit_def)
qed

theorem missing_record_not_rendered_witness:
  "selectedVisitId staleDetail = Some ''a'' \<and> ''a'' \<notin> visit_id ` set (visits staleDetail)
   \<and> view staleDetail = DetailView \<and> renderContent staleDetail = Nothing
   \<and> selectedVisitId staleForm = Some ''a'' \<and> ''a'' \<notin> visit_id ` set (visits staleForm)
   \<and> view staleForm = FormView \<and> renderContent staleForm = RenderForm None
   \<and> view (handleGoBack staleForm) = ListView"
proof -
  have a: "selectedVisitId staleDetail = Some ''a''" "''a'' \<notin> visit_id ` set (visits staleDetail)"
      "view staleDetail = DetailView"
    by (simp_all add: staleDetail_def handleSelectVisit_def exampleVisit_def)
  have b: "selectedVisitId staleForm = Some ''a''" "''a'' \<notin> visit_id ` set (visits staleForm)"
      "view staleForm = FormView"
    by (simp_all add: staleForm_def handleEditVisitFromList_def exampleVisit_def)
  from missing_record_not_rendered[OF a(1,2)] a(3)
  have 1: "renderContent staleDetail = Nothing" by simp
  from missing_record_not_rendered[OF b(1,2)] b(3)
  have 2: "renderContent staleForm = RenderForm None \<and> view (handleGoBack staleForm) = ListView"
    by simp
  from a b 1 2 show ?thesis by blast
qed

section \<open>Importing\<close>

lemma hasRequired_eq:
  "hasRequired v = (if v = JNull then Inl TypeError else Inr (wellFormedElement v))"
  by (cases v) (auto simp: hasRequired_def wellFormedElement_def property_def)

lemma every_hasRequired_accepts:
  "every hasRequired els = Inr True \<longleftrightarrow> list_all wellFormedElement els"
  by (induction els) (auto simp: hasRequired_eq wellFormedElement_def property_def)

lemma every_hasRequired_rejects:
  "\<not> list_all wellFormedElement els \<Longrightarrow>
   every hasRequired els = Inr False \<or> every hasRequired els = Inl TypeError"
  by (induction els) (auto simp: hasRequired_eq)

lemma wellFormed_JObj:
  "wellFormedElement (JObj kvs) =
     (truthy (map_of kvs ''id'') \<and> truthy (map_of kvs ''businessName'')
      \<and> truthy (map_of kvs ''timestamp''))"
  by (simp add: wellFormedElement_def property_def)

text \<open>
  C7: for every import file, when the text is not JSON, or the parsed document is not an
  array, or some element of the array lacks a truthy (for a string: non-empty) \<open>id\<close>,
  \<open>businessName\<close> or \<open>timestamp\<close>, the import ends in the failure alert and the
  collection is the one before; when the document is an array of elements that have all
  three, the question with the number of existing and of imported records is asked, and
  the collection becomes the array of the document if the answer is yes and stays the
  one before if the answer is no.
\<close>

theorem import_validated:
  fixes parse :: "string \<Rightarrow> json option" and confirm :: "nat \<Rightarrow> nat \<Rightarrow> bool"
    and t :: string and vs :: "json list"
  defines "r \<equiv> handleFileChange parse confirm (Some (Some t)) vs"
  shows "(parse t = None \<longrightarrow> r = (vs, [AlertImportFailed SyntaxError]))
    \<and> (\<forall>doc. parse t = Some doc \<and> (\<forall>els. doc \<noteq> JArr els)
          \<longrightarrow> r = (vs, [AlertImportFailed InvalidFileFormat]))
    \<and> (\<forall>els. parse t = Some (JArr els) \<and> \<not> list_all wellFormedElement els
          \<longrightarrow> r = (vs, [AlertImportFailed InvalidFileFormat])
              \<or> r = (vs, [AlertImportFailed TypeError]))
    \<and> (\<forall>els. parse t = Some (JArr els) \<and> list_all wellFormedElement els
          \<longrightarrow> r = (if confirm (length vs) (length els)
                   then (els, [ConfirmReplace (length vs) (length els), AlertImported])
                   else (vs, [ConfirmReplace (length vs) (length els)])))"
proof -
  have r: "r = readerOnLoad parse confirm (Some t) vs"
    by (simp add: r_def handleFileChange_def)
  have 1: "parse t = None \<longrightarrow> r = (vs, [AlertImportFailed SyntaxError])"
    by (simp add: r readerOnLoad_def)
  have 2: "r = (vs, [AlertImportFailed InvalidFileFormat])"
    if "parse t = Some doc" "\<forall>els. doc \<noteq> JArr els" for doc
    using that by (cases doc) (simp_all add: r readerOnLoad_def)
  have 3: "r = (vs, [AlertImportFailed InvalidFileFormat]) \<or> r = (vs, [AlertImportFailed TypeError])"
    if "parse t = Some (JArr els)" "\<not> list_all wellFormedElement els" for els
    using that(1) every_hasRequired_rejects[OF that(2)]
    by (auto simp: r readerOnLoad_def)
  have 4: "r = (if confirm (length vs) (length els)
                   then (els, [ConfirmReplace (length vs) (length els), AlertImported])
                   else (vs, [ConfirmReplace (length vs) (length els)]))"
    if "parse t = Some (JArr els)" "list_all wellFormedElement els" for els
  proof -
    from that(2) have "every hasRequired els = Inr True"
      by (simp add: every_hasRequired_accepts)
    with that(1) show ?thesis by (simp add: r readerOnLoad_def)
  qed
  from 1 2 3 4 show ?thesis by blast
qed

theorem import_validated_witness:
  "list_all wellFormedElement [goodElement] \<and> \<not> list_all wellFormedElement [goodElement, noNameElement]
   \<and> fst (handleFileChange (\<lambda>t. Some (JArr [goodElement, noNameElement])) (\<lambda>n m. True)
            (Some (Some ''file'')) [oddElement]) = [oddElement]
   \<and> handleFileChange (\<lambda>t. Some (JArr [goodElement])) (\<lambda>n m. True) (Some (Some ''file'')) [oddElement]
       = ([goodElement], [ConfirmReplace 1 1, AlertImported])
   \<and> handleFileChange (\<lambda>t. Some (JArr [goodElement])) (\<lambda>n m. False) (Some (Some ''file'')) [oddElement]
       = ([oddElement], [ConfirmReplace 1 1])
   \<and> handleFileChange (\<lambda>t. Some goodElement) (\<lambda>n m. True) (Some (Some ''file'')) [oddElement]
       = ([oddElement], [AlertImportFailed InvalidFileFormat])
   \<and> handleFileChange (\<lambda>t. None) (\<lambda>n m. True) (Some (Some ''file'')) [oddElement]
       = ([oddElement], [AlertImportFailed SyntaxError])"
proof -
  have g: "list_all wellFormedElement [goodElement]"
    by (simp add: wellFormedElement_def property_def goodElement_def day1_def)
  have b: "\<not> list_all wellFormedElement [goodElement, noNameElement]"
    by (simp add: wellFormedElement_def property_def noNameElement_def goodElement_def day1_def)
  have na: "\<forall>els. goodElement \<noteq> JArr els" by (simp add: goodElement_def)
  note bad = import_validated[where parse = "\<lambda>t. Some (JArr [goodElement, noNameElement])" and t = "''file''"
      and vs = "[oddElement]" and confirm = "\<lambda>n m. True", THEN conjunct2, THEN conjunct2, THEN conjunct1, rule_format,
      of "[goodElement, noNameElement]"]
  note yes = import_validated[where parse = "\<lambda>t. Some (JArr [goodElement])" and t = "''file''"
      and vs = "[oddElement]" and confirm = "\<lambda>n m. True", THEN conjunct2, THEN conjunct2, THEN conjunct2, rule_format,
      of "[goodElement]"]
  note no = import_validated[where parse = "\<lambda>t. Some (JArr [goodElement])" and t = "''file''"
      and vs = "[oddElement]" and confirm = "\<lambda>n m. False", THEN conjunct2, THEN conjunct2, THEN conjunct2, rule_format,
      of "[goodElement]"]
  note obj = import_validated[where parse = "\<lambda>t. Some goodElement" and t = "''file''"
      and vs = "[oddElement]" and confirm = "\<lambda>n m. True", THEN conjunct2, THEN conjunct1, rule_format, of goodElement]
  note syn = import_validated[where parse = "\<lambda>t. None" and t = "''file''"
      and vs = "[oddElement]" and confirm = "\<lambda>n m. True", THEN conjunct1, rule_format]
  from bad b have 1: "fst (handleFileChange (\<lambda>t. Some (JArr [goodElement, noNameElement])) (\<lambda>n m. True)
            (Some (Some ''file'')) [oddElement]) = [oddElement]"
    by auto
  from yes g have 2: "handleFileChange (\<lambda>t. Some (JArr [goodElement])) (\<lambda>n m. True) (Some (Some ''file'')) [oddElement]
       = ([goodElement], [ConfirmReplace 1 1, AlertImported])"
    by simp
  from no g have 3: "handleFileChange (\<lambda>t. Some (JArr [goodElement])) (\<lambda>n m. False) (Some (Some ''file'')) [oddElement]
       = ([oddElement], [ConfirmReplace 1 1])"
    by simp
  from obj na have 4: "handleFileChange (\<lambda>t. Some goodElement) (\<lambda>n m. True) (Some (Some ''file'')) [oddElement]
       = ([oddElement], [AlertImportFailed InvalidFileFormat])"
    by simp
  from syn have 5: "handleFileChange (\<lambda>t. None) (\<lambda>n m. True) (Some (Some ''file'')) [oddElement]
       = ([oddElement], [AlertImportFailed SyntaxError])"
    by simp
  from g b 1 2 3 4 5 show ?thesis by blast
qed

text \<open>
  C10: for an import document that is an array of objects, the outcome is decided by the
  truthiness of the properties \<open>id\<close>, \<open>businessName\<close> and \<open>timestamp\<close> of each object
  and by nothing else: when all are truthy, and the replacement is confirmed, the
  collection becomes the array as it was parsed, whatever else the objects hold or lack;
  otherwise the import fails with the alert for an invalid file format.
\<close>

theorem import_checks_truthiness_only:
  fixes parse :: "string \<Rightarrow> json option" and confirm :: "nat \<Rightarrow> nat \<Rightarrow> bool"
    and t :: string and vs :: "json list" and objs :: "(string \<times> json) list list"
  assumes "parse t = Some (JArr (map JObj objs))"
  shows "handleFileChange parse confirm (Some (Some t)) vs =
     (if list_all (\<lambda>kvs. truthy (map_of kvs ''id'') \<and> truthy (map_of kvs ''businessName'')
                          \<and> truthy (map_of kvs ''timestamp'')) objs
      then (if confirm (length vs) (length objs)
            then (map JObj objs, [ConfirmReplace (length vs) (length objs), AlertImported])
            else (vs, [ConfirmReplace (length vs) (length objs)]))
      else (vs, [AlertImportFailed InvalidFileFormat]))"
proof -
  let ?ok = "\<lambda>kvs. truthy (map_of kvs ''id'') \<and> truthy (map_of kvs ''businessName'')
                          \<and> truthy (map_of kvs ''timestamp'')"
  have ev: "every hasRequired (map JObj objs) = Inr (list_all ?ok objs)"
    by (induction objs) (auto simp: hasRequired_eq wellFormed_JObj)
  show ?thesis
    using assms by (simp add: handleFileChange_def readerOnLoad_def ev)
qed

theorem import_checks_truthiness_only_witness:
  "handleFileChange (\<lambda>t. Some (JArr [oddElement])) (\<lambda>n m. True) (Some (Some ''file'')) [goodElement]
     = ([oddElement], [ConfirmReplace 1 1, AlertImported])
   \<and> handleFileChange (\<lambda>t. Some (JArr [oddElement, noNameElement])) (\<lambda>n m. True)
        (Some (Some ''file'')) [goodElement]
     = ([goodElement], [AlertImportFailed InvalidFileFormat])"
proof -
  have a: "(\<lambda>t. Some (JArr [oddElement])) ''file'' =
      Some (JArr (map JObj [[(''id'', JNum (Finite 42)), (''businessName'', JBool True),
        (''timestamp'', JArr []), (''visitType'', JStr ''Bogus''), (''extra'', JNull)]]))"
    by (simp add: oddElement_def)
  have b: "(\<lambda>t. Some (JArr [oddElement, noNameElement])) ''file'' =
      Some (JArr (map JObj [[(''id'', JNum (Finite 42)), (''businessName'', JBool True),
        (''timestamp'', JArr []), (''visitType'', JStr ''Bogus''), (''extra'', JNull)],
        [(''id'', JStr ''x2''), (''timestamp'', JStr day1)]]))"
    by (simp add: oddElement_def noNameElement_def)
  from import_checks_truthiness_only[OF a, where confirm = "\<lambda>n m. True" and vs = "[goodElement]"]
  have 1: "handleFileChange (\<lambda>t. Some (JArr [oddElement])) (\<lambda>n m. True) (Some (Some ''file'')) [goodElement]
     = ([oddElement], [ConfirmReplace 1 1, AlertImported])"
    by (simp add: oddElement_def)
  from import_checks_truthiness_only[OF b, where confirm = "\<lambda>n m. True" and vs = "[goodElement]"]
  have 2: "handleFileChange (\<lambda>t. Some (JArr [oddElement, noNameElement])) (\<lambda>n m. True)
        (Some (Some ''file'')) [goodElement]
     = ([goodElement], [AlertImportFailed InvalidFileFormat])"
    by simp
  from 1 2 show ?thesis by blast
qed

end
